theory Spec2Isabelle
  imports Main "HOL-Library.Product_Lexorder"
begin

section \<open>Data model (server/models/Permission.ts and the permissions table)\<close>

datatype PermissionSubjectType = SubjectUser | SubjectGroup | SubjectRole

datatype PermissionResourceType = ResWorkspace | ResCollection | ResDocument

datatype PermissionLevel = LevelRead | LevelEdit | LevelManage

datatype PermissionInheritMode = InheritSelf | InheritChildren

text \<open>
  A row of the \<^verbatim>\<open>permissions\<close> table. Identifiers and roles are strings, nullable
  columns are options, timestamps are natural numbers.
\<close>

record Permission =
  perm_id :: string
  perm_teamId :: string
  perm_subjectType :: PermissionSubjectType
  perm_subjectId :: "string option"
  perm_subjectRole :: "string option"
  perm_resourceType :: PermissionResourceType
  perm_resourceId :: "string option"
  perm_permission :: PermissionLevel
  perm_inheritMode :: PermissionInheritMode
  perm_grantedById :: string
  perm_createdAt :: nat
  perm_deletedAt :: "nat option"

datatype Source = Direct | Inherited

text \<open>The type \<^verbatim>\<open>ResolvedPermission\<close> of PermissionResolver.ts.\<close>

record ResolvedPermission =
  rp_id :: string
  rp_teamId :: string
  rp_subjectType :: PermissionSubjectType
  rp_subjectId :: "string option"
  rp_subjectRole :: "string option"
  rp_resourceType :: PermissionResourceType
  rp_resourceId :: "string option"
  rp_permission :: PermissionLevel
  rp_inheritMode :: PermissionInheritMode
  rp_grantedById :: string
  rp_source :: Source

text \<open>
  The object literal both resolver functions build from a row; the caller supplies the
  \<^verbatim>\<open>source\<close> tag.
\<close>

definition toResolved :: "Source \<Rightarrow> Permission \<Rightarrow> ResolvedPermission" where
  "toResolved src p =
     \<lparr> rp_id = perm_id p,
       rp_teamId = perm_teamId p,
       rp_subjectType = perm_subjectType p,
       rp_subjectId = perm_subjectId p,
       rp_subjectRole = perm_subjectRole p,
       rp_resourceType = perm_resourceType p,
       rp_resourceId = perm_resourceId p,
       rp_permission = perm_permission p,
       rp_inheritMode = perm_inheritMode p,
       rp_grantedById = perm_grantedById p,
       rp_source = src \<rparr>"

text \<open>
  The check constraint \<^verbatim>\<open>permissions_resource_consistency_check\<close> of the migration
  that creates the table.
\<close>

definition resource_consistent :: "Permission \<Rightarrow> bool" where
  "resource_consistent p =
     ((perm_resourceType p = ResWorkspace \<and> perm_resourceId p = None) \<or>
      ((perm_resourceType p = ResCollection \<or> perm_resourceType p = ResDocument) \<and>
       perm_resourceId p \<noteq> None))"

section \<open>Errors\<close>

text \<open>
  What a route or a query raises. \<open>DatabaseError\<close> is the error of a query that PostgreSQL
  refuses, \<open>UniqueConstraintError\<close> the error of an insert that a unique index refuses.
\<close>

datatype error =
    ValidationError string
  | NotFoundError
  | AuthorizationError
  | TypeError
  | DatabaseError
  | UniqueConstraintError

section \<open>Comparing a uuid column with a string of the request\<close>

text \<open>
  The id columns of the tables have the type \<^verbatim>\<open>uuid\<close>. When a query compares such a column
  with a string, PostgreSQL converts the string with the input function of the type: an
  optional opening brace, sixteen bytes of two hexadecimal digits in either case, an
  optional hyphen after each second byte, the closing brace, and nothing else; any other
  string makes the query fail. The rows that come back carry the canonical text: lower
  case, hyphens after the bytes 4, 6, 8 and 10. \<open>uuid_in\<close> gives the canonical text of a
  string, or nothing.
\<close>

definition isxdigit :: "char \<Rightarrow> bool" where
  "isxdigit c = (c \<in> set ''0123456789abcdefABCDEF'')"

definition tolower :: "char \<Rightarrow> char" where
  "tolower c = (case map_of (zip ''ABCDEF'' ''abcdef'') c of Some l \<Rightarrow> l | None \<Rightarrow> c)"

fun uuid_bytes :: "nat \<Rightarrow> string \<Rightarrow> (string list \<times> string) option" where
  "uuid_bytes 0 src = Some ([], src)"
| "uuid_bytes (Suc n) src =
     (case src of
        a # b # rest \<Rightarrow>
          if isxdigit a \<and> isxdigit b
          then
            (let i = 15 - n;
                 rest' = (case rest of
                            c # after \<Rightarrow>
                              if c = CHR ''-'' \<and> i mod 2 = 1 \<and> i < 15 then after else rest
                          | [] \<Rightarrow> rest)
             in map_option (\<lambda>(bytes, tail). ([tolower a, tolower b] # bytes, tail))
                  (uuid_bytes n rest'))
          else None
      | _ \<Rightarrow> None)"

definition uuid_out :: "string list \<Rightarrow> string" where
  "uuid_out bytes =
     concat (take 4 bytes) @ ''-'' @ concat (take 2 (drop 4 bytes)) @ ''-'' @
     concat (take 2 (drop 6 bytes)) @ ''-'' @ concat (take 2 (drop 8 bytes)) @ ''-'' @
     concat (drop 10 bytes)"

definition uuid_in :: "string \<Rightarrow> string option" where
  "uuid_in source =
     (let braces = (case source of c # rest \<Rightarrow> c = CHR ''{'' | [] \<Rightarrow> False);
          src = (if braces then tl source else source)
      in case uuid_bytes 16 src of
           None \<Rightarrow> None
         | Some (bytes, tail) \<Rightarrow>
             if (if braces then tail = ''}'' else tail = [])
             then Some (uuid_out bytes) else None)"

section \<open>Permission.findAll with DEFAULT\_ORDER\<close>

text \<open>
  The values of the two enums are the lower-case strings \<^verbatim>\<open>collection < document < workspace\<close>
  and \<^verbatim>\<open>group < role < user\<close>; the ascending order of the query is the order of these ranks.
\<close>

fun resourceTypeOrd :: "PermissionResourceType \<Rightarrow> nat" where
  "resourceTypeOrd ResCollection = 0"
| "resourceTypeOrd ResDocument = 1"
| "resourceTypeOrd ResWorkspace = 2"

fun subjectTypeOrd :: "PermissionSubjectType \<Rightarrow> nat" where
  "subjectTypeOrd SubjectGroup = 0"
| "subjectTypeOrd SubjectRole = 1"
| "subjectTypeOrd SubjectUser = 2"

definition DEFAULT_ORDER :: "Permission \<Rightarrow> nat \<times> nat \<times> nat" where
  "DEFAULT_ORDER p =
     (resourceTypeOrd (perm_resourceType p), subjectTypeOrd (perm_subjectType p), perm_createdAt p)"

text \<open>
  The query leaves the order of rows with equal keys open; \<open>findAll\<close> keeps them in the
  order of the table. No statement below depends on the order of such rows.
\<close>

definition findAll :: "(Permission \<Rightarrow> bool) \<Rightarrow> Permission list \<Rightarrow> Permission list" where
  "findAll wh rows = sort_key DEFAULT_ORDER (filter wh rows)"

section \<open>The database the resolver and the calculator read\<close>

datatype DocumentPermission = DocRead | DocEdit | DocManage

datatype CollectionPermission = CollRead | CollEdit | CollManage

text \<open>
  A document as the policies and the routes see it. \<open>doc_permissionGrants\<close> is the
  eagerly loaded \<^verbatim>\<open>permissionGrants\<close> association (absent when not loaded). A document
  has no owner id: the column \<^verbatim>\<open>ownerId\<close> exists for collections only.
\<close>

record Document =
  doc_id :: string
  doc_collectionId :: "string option"
  doc_parentDocumentId :: "string option"
  doc_permissionGrants :: "Permission list option"

record Collection =
  coll_id :: string
  coll_ownerId :: "string option"
  coll_permissionGrants :: "Permission list option"

text \<open>
  \<open>user_defaultDocumentPermission\<close> and \<open>user_defaultCollectionPermission\<close> are getters
  of the User model, taken here as fields.
\<close>

record User =
  user_id :: string
  user_teamId :: string
  user_role :: string
  user_defaultDocumentPermission :: DocumentPermission
  user_defaultCollectionPermission :: CollectionPermission

text \<open>
  The tables behind the models: \<open>db_sequelize\<close> says whether the Document model is bound
  to a connection (\<^verbatim>\<open>Document.sequelize\<close>), \<open>db_documents\<close> and \<open>db_users\<close> are keyed by
  primary key (\<^verbatim>\<open>findByPk\<close>), \<open>db_groupsByMember u\<close> is the list of group ids returned by
  \<^verbatim>\<open>Group.filterByMember(u).findAll\<close>, \<open>db_groups\<close> the ids of the existing groups.
  \<open>db_documents\<close> serves both \<^verbatim>\<open>Document.findByPk\<close> and the ancestor query on the table;
  soft-deleted documents are not modelled.
\<close>

record Database =
  db_sequelize :: bool
  db_documents :: "string \<rightharpoonup> Document"
  db_collections :: "string \<rightharpoonup> Collection"
  db_users :: "string \<rightharpoonup> User"
  db_groups :: "string list"
  db_groupsByMember :: "string \<Rightarrow> string list"
  db_permissions :: "Permission list"

section \<open>PermissionResolver.resolveForCollection\<close>

text \<open>
  The collection id is compared twice: by the query, against the uuid column
  \<^verbatim>\<open>resourceId\<close>, and then by \<^verbatim>\<open>===\<close>, as a string, against the \<^verbatim>\<open>resourceId\<close> of each row
  that came back, to choose the tag. \<^verbatim>\<open>collections.permissions\<close> passes the id of the request
  body as it is; \<^verbatim>\<open>collections.permissions_all\<close> passes the id of a loaded collection. The
  team id is the one of the authenticated user, in the spelling of the table.
\<close>

definition resolveForCollection ::
  "Database \<Rightarrow> string \<Rightarrow> string \<Rightarrow> error + ResolvedPermission list" where
  "resolveForCollection db teamId collectionId =
     (case uuid_in collectionId of
        None \<Rightarrow> Inl DatabaseError
      | Some collectionUuid \<Rightarrow>
          (let permissions = findAll (\<lambda>p.
                 perm_teamId p = teamId \<and>
                 perm_deletedAt p = None \<and>
                 ((perm_resourceType p = ResCollection \<and> perm_resourceId p = Some collectionUuid) \<or>
                  (perm_resourceType p = ResWorkspace \<and> perm_resourceId p = None \<and>
                   perm_inheritMode p = InheritChildren))) (db_permissions db)
           in Inr (map (\<lambda>permission.
                 toResolved
                   (if perm_resourceType permission = ResCollection \<and>
                       perm_resourceId permission = Some collectionId
                    then Direct else Inherited)
                   permission) permissions)))"

section \<open>PermissionResolver.findAncestorDocumentIds\<close>

text \<open>
  The recursive query \<^verbatim>\<open>WITH RECURSIVE ancestry ... UNION ALL ...\<close>: the row of the
  document (if the table has one), then, as long as the last row has a parent id that is
  the id of a row, that row. The query has no other stopping condition, so it is a
  partial function: \<open>None\<close> is "the query does not return".
\<close>

partial_function (option) ancestry :: "(string \<rightharpoonup> Document) \<Rightarrow> string \<Rightarrow> string list option" where
  "ancestry documents i =
     (case documents i of
        None \<Rightarrow> Some []
      | Some d \<Rightarrow>
          (case doc_parentDocumentId d of
             None \<Rightarrow> Some [i]
           | Some parent \<Rightarrow>
               Option.bind (ancestry documents parent) (\<lambda>rows. Some (i # rows))))"

definition findAncestorDocumentIds :: "Database \<Rightarrow> string \<Rightarrow> string list option" where
  "findAncestorDocumentIds db documentId =
     (if \<not> db_sequelize db then Some [documentId]
      else ancestry (db_documents db) documentId)"

declare ancestry.simps [code]

section \<open>PermissionResolver.resolveForDocument\<close>

text \<open>
  Every caller of \<^verbatim>\<open>resolveForDocument\<close> passes the id and the collection id of a loaded
  document, in the spelling of the table, for which the comparison of the query and the
  comparison by \<^verbatim>\<open>===\<close> agree: both are the equality of strings here.
\<close>

text \<open>JavaScript truthiness of a \<^verbatim>\<open>string | null\<close>: null and the empty string are falsy.\<close>

fun truthy :: "string option \<Rightarrow> bool" where
  "truthy None = False"
| "truthy (Some s) = (s \<noteq> [])"

definition resolveForDocument ::
  "Database \<Rightarrow> string \<Rightarrow> string \<Rightarrow> string option \<Rightarrow> ResolvedPermission list option" where
  "resolveForDocument db teamId documentId collectionId =
     Option.bind (findAncestorDocumentIds db documentId) (\<lambda>ancestorIds.
       let inheritedAncestorIds = filter (\<lambda>i. i \<noteq> documentId) ancestorIds;
           disjunction =
             [\<lambda>p. perm_resourceType p = ResWorkspace \<and> perm_resourceId p = None \<and>
                   perm_inheritMode p = InheritChildren,
              \<lambda>p. perm_resourceType p = ResDocument \<and> perm_resourceId p = Some documentId]
             @ (if truthy collectionId
                then [\<lambda>p. perm_resourceType p = ResCollection \<and>
                           perm_resourceId p = collectionId \<and>
                           perm_inheritMode p = InheritChildren]
                else [])
             @ (if inheritedAncestorIds \<noteq> []
                then [\<lambda>p. perm_resourceType p = ResDocument \<and>
                           (case perm_resourceId p of
                              None \<Rightarrow> False
                            | Some r \<Rightarrow> r \<in> set inheritedAncestorIds) \<and>
                           perm_inheritMode p = InheritChildren]
                else []);
           permissions = findAll (\<lambda>p.
             perm_teamId p = teamId \<and>
             perm_deletedAt p = None \<and>
             list_ex (\<lambda>clause. clause p) disjunction) (db_permissions db)
       in Some (map (\<lambda>permission.
            toResolved
              (if perm_resourceType permission = ResDocument \<and>
                  perm_resourceId permission = Some documentId
               then Direct else Inherited)
              permission) permissions))"

section \<open>The effective-permission calculator\<close>

text \<open>\<^verbatim>\<open>DocumentPermissionPriority\<close>: higher value takes precedence.\<close>

fun DocumentPermissionPriority :: "DocumentPermission \<Rightarrow> int" where
  "DocumentPermissionPriority DocManage = 2"
| "DocumentPermissionPriority DocEdit = 1"
| "DocumentPermissionPriority DocRead = 0"

fun CollectionPermissionPriority :: "CollectionPermission \<Rightarrow> int" where
  "CollectionPermissionPriority CollManage = 2"
| "CollectionPermissionPriority CollEdit = 1"
| "CollectionPermissionPriority CollRead = 0"

text \<open>lodash \<^verbatim>\<open>orderBy(xs, f, "desc")\<close>: a stable sort by descending key.\<close>

definition orderBy_desc :: "'a list \<Rightarrow> ('a \<Rightarrow> int) \<Rightarrow> 'a list" where
  "orderBy_desc xs f = sort_key (\<lambda>x. - f x) xs"

text \<open>\<^verbatim>\<open>xs[0]\<close>, which is \<^verbatim>\<open>undefined\<close> on the empty array.\<close>

fun first :: "'a list \<Rightarrow> 'a option" where
  "first [] = None"
| "first (x # xs) = Some x"

text \<open>The subject filter of \<^verbatim>\<open>getDocumentPermission\<close>.\<close>

definition subjectFilter :: "string \<Rightarrow> User \<Rightarrow> string set \<Rightarrow> ResolvedPermission \<Rightarrow> bool" where
  "subjectFilter userId user groupIds permission =
     (if rp_subjectType permission = SubjectUser then rp_subjectId permission = Some userId
      else if rp_subjectType permission = SubjectRole
        then rp_subjectRole permission = Some (user_role user)
      else if rp_subjectType permission = SubjectGroup
        then truthy (rp_subjectId permission) \<and>
             (case rp_subjectId permission of None \<Rightarrow> False | Some g \<Rightarrow> g \<in> groupIds)
      else False)"

definition levelOf :: "ResolvedPermission \<Rightarrow> DocumentPermission" where
  "levelOf permission =
     (if rp_permission permission = LevelManage then DocManage
      else if rp_permission permission = LevelEdit then DocEdit
      else DocRead)"

text \<open>
  The outer option is the result of the resolver's query (\<open>None\<close>: it does not return),
  the inner one is \<^verbatim>\<open>DocumentPermission | undefined\<close>.
\<close>

definition getDocumentPermission ::
  "Database \<Rightarrow> string \<Rightarrow> string \<Rightarrow> string option \<Rightarrow> DocumentPermission option option" where
  "getDocumentPermission db userId documentId skipMembershipId =
     (case db_documents db documentId of
        None \<Rightarrow> Some None
      | Some document \<Rightarrow>
          (case db_users db userId of
             None \<Rightarrow> Some None
           | Some user \<Rightarrow>
               (let groupIds = set (db_groupsByMember db userId) in
                Option.bind
                  (resolveForDocument db (user_teamId user) (doc_id document)
                     (doc_collectionId document))
                  (\<lambda>resolvedPermissions.
                     let permissions =
                           map levelOf
                             (filter (subjectFilter userId user groupIds)
                                (filter (\<lambda>permission. Some (rp_id permission) \<noteq> skipMembershipId)
                                   resolvedPermissions));
                         orderedPermissions = orderBy_desc permissions DocumentPermissionPriority
                     in Some (first orderedPermissions)))))"

definition isElevatedPermission ::
  "Database \<Rightarrow> string \<Rightarrow> string \<Rightarrow> DocumentPermission \<Rightarrow> string option \<Rightarrow> bool option" where
  "isElevatedPermission db userId documentId permission skipMembershipId =
     Option.bind (getDocumentPermission db userId documentId skipMembershipId)
       (\<lambda>existingPermission.
          case existingPermission of
            None \<Rightarrow> Some True
          | Some existing \<Rightarrow>
              Some (DocumentPermissionPriority existing < DocumentPermissionPriority permission))"

section \<open>The matching helper of the policies\<close>

text \<open>
  \<^verbatim>\<open>matchesSubject\<close> is defined twice, with the same body, in policies/collection.ts and
  policies/document.ts. Group grants are accepted as they are: the query that loads the
  grants has filtered them by the user's groups.
\<close>

definition matchesSubject :: "Permission \<Rightarrow> User \<Rightarrow> bool" where
  "matchesSubject grant user =
     (if perm_subjectType grant = SubjectUser then perm_subjectId grant = Some (user_id user)
      else if perm_subjectType grant = SubjectRole
        then perm_subjectRole grant = Some (user_role user)
      else perm_subjectType grant = SubjectGroup)"

definition levelToCollectionPermission :: "PermissionLevel \<Rightarrow> CollectionPermission" where
  "levelToCollectionPermission level =
     (if level = LevelManage then CollManage
      else if level = LevelEdit then CollEdit
      else CollRead)"

definition levelToDocumentPermission :: "PermissionLevel \<Rightarrow> DocumentPermission" where
  "levelToDocumentPermission level =
     (if level = LevelManage then DocManage
      else if level = LevelEdit then DocEdit
      else DocRead)"

text \<open>
  The result \<^verbatim>\<open>false | string[]\<close> of \<^verbatim>\<open>includesPermission\<close> is an option: \<open>None\<close> is
  \<^verbatim>\<open>false\<close>. The loop over the grants is a left fold that pushes the ids; the value
  \<^verbatim>\<open>mapped\<close> of the loop body is the level mapping above, written there as a conditional.
\<close>

definition includesPermission_collection ::
  "Collection option \<Rightarrow> User \<Rightarrow> CollectionPermission list \<Rightarrow> string list option" where
  "includesPermission_collection collection user permissions =
     (case collection of
        None \<Rightarrow> None
      | Some c \<Rightarrow>
          if truthy (coll_ownerId c) \<and> coll_ownerId c = Some (user_id user)
          then Some [''owner:'' @ coll_id c]
          else
            (let grants = (case coll_permissionGrants c of None \<Rightarrow> [] | Some gs \<Rightarrow> gs);
                 grantIds = foldl (\<lambda>grantIds grant.
                   if \<not> matchesSubject grant user then grantIds
                   else if levelToCollectionPermission (perm_permission grant) \<in> set permissions
                     then grantIds @ [perm_id grant]
                   else grantIds) [] grants
             in if length grantIds > 0 then Some grantIds else None))"

definition includesPermission_document ::
  "Document option \<Rightarrow> User \<Rightarrow> DocumentPermission list \<Rightarrow> string list option" where
  "includesPermission_document document user permissions =
     (case document of
        None \<Rightarrow> None
      | Some d \<Rightarrow>
          (let grants = (case doc_permissionGrants d of None \<Rightarrow> [] | Some gs \<Rightarrow> gs);
               grantIds = foldl (\<lambda>grantIds grant.
                 if \<not> matchesSubject grant user then grantIds
                 else if levelToDocumentPermission (perm_permission grant) \<in> set permissions
                   then grantIds @ [perm_id grant]
                 else grantIds) [] grants
           in if length grantIds > 0 then Some grantIds else None))"

section \<open>Writing grants: the routes that create them\<close>

text \<open>
  \<^verbatim>\<open>Permission.destroy({ where, force: false })\<close> on the paranoid model: every row that
  matches and is not yet deleted gets its \<^verbatim>\<open>deletedAt\<close> set; no row is removed.
\<close>

definition destroy :: "(Permission \<Rightarrow> bool) \<Rightarrow> nat \<Rightarrow> Permission list \<Rightarrow> Permission list" where
  "destroy wh now rows =
     map (\<lambda>p. if perm_deletedAt p = None \<and> wh p then p \<lparr> perm_deletedAt := Some now \<rparr> else p) rows"

definition ZERO_UUID :: string where
  "ZERO_UUID = ''00000000-0000-0000-0000-000000000000''"

fun COALESCE :: "string option \<Rightarrow> string \<Rightarrow> string" where
  "COALESCE None dflt = dflt"
| "COALESCE (Some v) dflt = v"

text \<open>The columns of the unique index \<^verbatim>\<open>permissions_unique_active_idx\<close>.\<close>

definition indexKey ::
  "Permission \<Rightarrow> string \<times> PermissionSubjectType \<times> string \<times> string \<times>
     PermissionResourceType \<times> string \<times> PermissionInheritMode" where
  "indexKey p =
     (perm_teamId p, perm_subjectType p, COALESCE (perm_subjectId p) ZERO_UUID,
      COALESCE (perm_subjectRole p) [], perm_resourceType p,
      COALESCE (perm_resourceId p) ZERO_UUID, perm_inheritMode p)"

text \<open>
  \<^verbatim>\<open>Permission.create\<close>: the insert is refused when a row that is not deleted has the
  same index columns (the index is partial: \<^verbatim>\<open>WHERE "deletedAt" IS NULL\<close>).
\<close>

definition create :: "Permission \<Rightarrow> Permission list \<Rightarrow> error + Permission list" where
  "create row rows =
     (if list_ex (\<lambda>q. perm_deletedAt q = None \<and> indexKey q = indexKey row) rows
      then Inl UniqueConstraintError
      else Inr (rows @ [row]))"

text \<open>The invariant the index maintains: the rows that are not deleted have distinct keys.\<close>

definition unique_active :: "Permission list \<Rightarrow> bool" where
  "unique_active rows = distinct (map indexKey (filter (\<lambda>p. perm_deletedAt p = None) rows))"

definition documentPermissionToLevel :: "DocumentPermission \<Rightarrow> PermissionLevel" where
  "documentPermissionToLevel permission =
     (if permission = DocManage then LevelManage
      else if permission = DocEdit then LevelEdit
      else LevelRead)"

definition collectionPermissionToLevel :: "CollectionPermission \<Rightarrow> PermissionLevel" where
  "collectionPermissionToLevel permission =
     (if permission = CollManage then LevelManage
      else if permission = CollEdit then LevelEdit
      else LevelRead)"

text \<open>
  The outcome of \<^verbatim>\<open>authorize(actor, action, resource)\<close> for the actions the routes ask
  for. The rules are parameters; a rule sees \<open>None\<close> when \<^verbatim>\<open>findByPk\<close> found no row.
\<close>

record Policies =
  can_manageUsers :: "User \<Rightarrow> Document \<Rightarrow> bool"
  can_readUser :: "User \<Rightarrow> User option \<Rightarrow> bool"
  can_readGroup :: "User \<Rightarrow> string option \<Rightarrow> bool"
  can_updateCollection :: "User \<Rightarrow> Collection option \<Rightarrow> bool"

text \<open>
  What a request brings: the authenticated user, the time, and the id the database gives
  the inserted row.
\<close>

record Request =
  req_actor :: User
  req_now :: nat
  req_newId :: string

text \<open>
  A route returns the grant it created or the error it raised, and the rows of the table
  as they are at that point (the transaction middleware rolls the writes back on an error).
\<close>

text \<open>
  The two statements that end each of these routes: \<^verbatim>\<open>await Permission.destroy({ where, force: false, transaction })\<close>
  and then \<^verbatim>\<open>await Permission.create(grant, ctx.context)\<close>. The result is the created
  grant or the error of the insert, with the rows as they are then.
\<close>

definition destroyThenCreate ::
  "(Permission \<Rightarrow> bool) \<Rightarrow> Permission \<Rightarrow> nat \<Rightarrow> Permission list \<Rightarrow>
   (error + Permission) \<times> Permission list" where
  "destroyThenCreate wh permissionGrant now rows =
     (let rows' = destroy wh now rows
      in case create permissionGrant rows' of
           Inl e \<Rightarrow> (Inl e, rows')
         | Inr rows'' \<Rightarrow> (Inr permissionGrant, rows''))"

definition documents_add_user ::
  "Policies \<Rightarrow> Request \<Rightarrow> Database \<Rightarrow> string \<Rightarrow> string \<Rightarrow> DocumentPermission option \<Rightarrow>
   (error + Permission) \<times> Permission list" where
  "documents_add_user pol req db i userId permission =
     (let actor = req_actor req in
      if userId = user_id actor
      then (Inl (ValidationError ''You cannot invite yourself''), db_permissions db)
      else
        (case db_documents db i of
           None \<Rightarrow> (Inl NotFoundError, db_permissions db)
         | Some document \<Rightarrow>
             (case db_users db userId of
                None \<Rightarrow> (Inl NotFoundError, db_permissions db)
              | Some user \<Rightarrow>
                  if \<not> can_manageUsers pol actor document
                  then (Inl AuthorizationError, db_permissions db)
                  else if \<not> can_readUser pol actor (Some user)
                  then (Inl AuthorizationError, db_permissions db)
                  else
                    (let resolvedPermission =
                           (case permission of
                              Some p \<Rightarrow> p
                            | None \<Rightarrow> user_defaultDocumentPermission user);
                         wh = (\<lambda>p.
                           perm_teamId p = user_teamId actor \<and>
                           perm_subjectType p = SubjectUser \<and>
                           perm_subjectId p = Some userId \<and>
                           perm_resourceType p = ResDocument \<and>
                           perm_resourceId p = Some i);
                         permissionGrant =
                           \<lparr> perm_id = req_newId req,
                             perm_teamId = user_teamId actor,
                             perm_subjectType = SubjectUser,
                             perm_subjectId = Some userId,
                             perm_subjectRole = None,
                             perm_resourceType = ResDocument,
                             perm_resourceId = Some i,
                             perm_permission = documentPermissionToLevel resolvedPermission,
                             perm_inheritMode = InheritSelf,
                             perm_grantedById = user_id actor,
                             perm_createdAt = req_now req,
                             perm_deletedAt = None \<rparr>
                        in destroyThenCreate wh permissionGrant (req_now req) (db_permissions db)))))"

definition documents_add_group ::
  "Policies \<Rightarrow> Request \<Rightarrow> Database \<Rightarrow> string \<Rightarrow> string \<Rightarrow> DocumentPermission option \<Rightarrow>
   (error + Permission) \<times> Permission list" where
  "documents_add_group pol req db i groupId permission =
     (let user = req_actor req in
      case db_documents db i of
        None \<Rightarrow> (Inl NotFoundError, db_permissions db)
      | Some document \<Rightarrow>
          if groupId \<notin> set (db_groups db)
          then (Inl NotFoundError, db_permissions db)
          else if \<not> can_manageUsers pol user document
          then (Inl AuthorizationError, db_permissions db)
          else if \<not> can_readGroup pol user (Some groupId)
          then (Inl AuthorizationError, db_permissions db)
          else
            (let resolvedPermission =
                   (case permission of
                      Some p \<Rightarrow> p
                    | None \<Rightarrow> user_defaultDocumentPermission user);
                 wh = (\<lambda>p.
                   perm_teamId p = user_teamId user \<and>
                   perm_subjectType p = SubjectGroup \<and>
                   perm_subjectId p = Some groupId \<and>
                   perm_resourceType p = ResDocument \<and>
                   perm_resourceId p = Some i);
                 permissionGrant =
                   \<lparr> perm_id = req_newId req,
                     perm_teamId = user_teamId user,
                     perm_subjectType = SubjectGroup,
                     perm_subjectId = Some groupId,
                     perm_subjectRole = None,
                     perm_resourceType = ResDocument,
                     perm_resourceId = Some i,
                     perm_permission = documentPermissionToLevel resolvedPermission,
                     perm_inheritMode = InheritSelf,
                     perm_grantedById = user_id user,
                     perm_createdAt = req_now req,
                     perm_deletedAt = None \<rparr>
                in destroyThenCreate wh permissionGrant (req_now req) (db_permissions db)))"

text \<open>
  In the collection routes \<^verbatim>\<open>findByPk\<close> does not reject a missing row: the rules see
  \<open>None\<close>. \<^verbatim>\<open>collections.add_group\<close> passes the body's \<^verbatim>\<open>permission\<close> to
  \<^verbatim>\<open>collectionPermissionToLevel\<close> as it is; \<^verbatim>\<open>collections.add_user\<close> falls back to the
  default of the loaded user, which fails on a missing user.
\<close>

definition collections_add_group ::
  "Policies \<Rightarrow> Request \<Rightarrow> Database \<Rightarrow> string \<Rightarrow> string \<Rightarrow> CollectionPermission \<Rightarrow>
   (error + Permission) \<times> Permission list" where
  "collections_add_group pol req db i groupId permission =
     (let user = req_actor req;
          collection = db_collections db i;
          group = (if groupId \<in> set (db_groups db) then Some groupId else None)
      in
      if \<not> can_updateCollection pol user collection
      then (Inl AuthorizationError, db_permissions db)
      else if \<not> can_readGroup pol user group
      then (Inl AuthorizationError, db_permissions db)
      else
        (let wh = (\<lambda>p.
               perm_teamId p = user_teamId user \<and>
               perm_subjectType p = SubjectGroup \<and>
               perm_subjectId p = Some groupId \<and>
               perm_resourceType p = ResCollection \<and>
               perm_resourceId p = Some i);
             permissionGrant =
               \<lparr> perm_id = req_newId req,
                 perm_teamId = user_teamId user,
                 perm_subjectType = SubjectGroup,
                 perm_subjectId = Some groupId,
                 perm_subjectRole = None,
                 perm_resourceType = ResCollection,
                 perm_resourceId = Some i,
                 perm_permission = collectionPermissionToLevel permission,
                 perm_inheritMode = InheritChildren,
                 perm_grantedById = user_id user,
                 perm_createdAt = req_now req,
                 perm_deletedAt = None \<rparr>
            in destroyThenCreate wh permissionGrant (req_now req) (db_permissions db)))"

definition collections_add_user ::
  "Policies \<Rightarrow> Request \<Rightarrow> Database \<Rightarrow> string \<Rightarrow> string \<Rightarrow> CollectionPermission option \<Rightarrow>
   (error + Permission) \<times> Permission list" where
  "collections_add_user pol req db i userId permission =
     (let actor = req_actor req;
          collection = db_collections db i;
          user = db_users db userId
      in
      if \<not> can_updateCollection pol actor collection
      then (Inl AuthorizationError, db_permissions db)
      else if \<not> can_readUser pol actor user
      then (Inl AuthorizationError, db_permissions db)
      else
        (case (case permission of
                 Some p \<Rightarrow> Some p
               | None \<Rightarrow> map_option user_defaultCollectionPermission user) of
           None \<Rightarrow> (Inl TypeError, db_permissions db)
         | Some resolvedPermission \<Rightarrow>
            (let wh = (\<lambda>p.
                   perm_teamId p = user_teamId actor \<and>
                   perm_subjectType p = SubjectUser \<and>
                   perm_subjectId p = Some userId \<and>
                   perm_resourceType p = ResCollection \<and>
                   perm_resourceId p = Some i);
                 permissionGrant =
                   \<lparr> perm_id = req_newId req,
                     perm_teamId = user_teamId actor,
                     perm_subjectType = SubjectUser,
                     perm_subjectId = Some userId,
                     perm_subjectRole = None,
                     perm_resourceType = ResCollection,
                     perm_resourceId = Some i,
                     perm_permission = collectionPermissionToLevel resolvedPermission,
                     perm_inheritMode = InheritChildren,
                     perm_grantedById = user_id actor,
                     perm_createdAt = req_now req,
                     perm_deletedAt = None \<rparr>
                in destroyThenCreate wh permissionGrant (req_now req) (db_permissions db))))"

text \<open>
  \<^verbatim>\<open>Permission.bulkCreate\<close>: one insert for all the rows; the first row the index refuses
  fails the whole statement.
\<close>

fun bulkCreate :: "Permission list \<Rightarrow> Permission list \<Rightarrow> error + Permission list" where
  "bulkCreate [] rows = Inr rows"
| "bulkCreate (row # others) rows =
     (case create row rows of
        Inl e \<Rightarrow> Inl e
      | Inr rows' \<Rightarrow> bulkCreate others rows')"

text \<open>
  The part of \<^verbatim>\<open>collections.update\<close> that runs when the body has a \<^verbatim>\<open>permission\<close>
  (\<open>None\<close> is \<^verbatim>\<open>null\<close>): the role grants of the collection for viewers and editors are
  soft-deleted and, for \<^verbatim>\<open>read\<close> and \<^verbatim>\<open>edit\<close>, created again. The second id is the id of
  the second inserted row.
\<close>

definition collections_update_permission ::
  "Policies \<Rightarrow> Request \<Rightarrow> string \<Rightarrow> Database \<Rightarrow> string \<Rightarrow> CollectionPermission option \<Rightarrow>
   (error + Permission list) \<times> Permission list" where
  "collections_update_permission pol req newId2 db i permission =
     (let user = req_actor req;
          collection = db_collections db i
      in
      if \<not> can_updateCollection pol user collection
      then (Inl AuthorizationError, db_permissions db)
      else
        (case collection of
           None \<Rightarrow> (Inl TypeError, db_permissions db)
         | Some c \<Rightarrow>
            (let rows1 = destroy (\<lambda>p.
                   perm_teamId p = user_teamId user \<and>
                   perm_subjectType p = SubjectRole \<and>
                   perm_subjectRole p = Some ''viewer'' \<and>
                   perm_resourceType p = ResCollection \<and>
                   perm_resourceId p = Some (coll_id c)) (req_now req) (db_permissions db);
                 rows2 = destroy (\<lambda>p.
                   perm_teamId p = user_teamId user \<and>
                   perm_subjectType p = SubjectRole \<and>
                   perm_subjectRole p = Some ''editor'' \<and>
                   perm_resourceType p = ResCollection \<and>
                   perm_resourceId p = Some (coll_id c)) (req_now req) rows1;
                 roleGrants =
                   (if permission = Some CollRead
                    then [(''viewer'', LevelRead), (''editor'', LevelRead)]
                    else if permission = Some CollEdit
                    then [(''viewer'', LevelRead), (''editor'', LevelEdit)]
                    else [])
             in if length roleGrants > 0
                then
                  (let grants = map (\<lambda>(newId, subjectRole, level).
                         \<lparr> perm_id = newId,
                           perm_teamId = user_teamId user,
                           perm_subjectType = SubjectRole,
                           perm_subjectId = None,
                           perm_subjectRole = Some subjectRole,
                           perm_resourceType = ResCollection,
                           perm_resourceId = Some (coll_id c),
                           perm_permission = level,
                           perm_inheritMode = InheritChildren,
                           perm_grantedById = user_id user,
                           perm_createdAt = req_now req,
                           perm_deletedAt = None \<rparr>)
                         (zip [req_newId req, newId2] roleGrants)
                   in case bulkCreate grants rows2 of
                        Inl e \<Rightarrow> (Inl e, rows2)
                      | Inr rows3 \<Rightarrow> (Inr grants, rows3))
                else (Inr [], rows2))))"

section \<open>Specification-side notions\<close>

text \<open>
  The explain-set the specification gives for a collection: the active workspace grants
  of the team with inherit mode children, tagged inherited, and the active grants of the
  team on exactly this collection, tagged direct.
\<close>

definition spec_resolveForCollection :: "Database \<Rightarrow> string \<Rightarrow> string \<Rightarrow> ResolvedPermission set" where
  "spec_resolveForCollection db teamId collectionId =
     toResolved Inherited `
       {p \<in> set (db_permissions db). perm_teamId p = teamId \<and> perm_deletedAt p = None \<and>
          perm_resourceType p = ResWorkspace \<and> perm_inheritMode p = InheritChildren}
     \<union> toResolved Direct `
       {p \<in> set (db_permissions db). perm_teamId p = teamId \<and> perm_deletedAt p = None \<and>
          perm_resourceType p = ResCollection \<and> perm_resourceId p = Some collectionId}"

text \<open>
  The parent chain of a document ends: it reaches a document without a parent, or a parent
  id that is the id of no row.
\<close>

inductive chain_ends :: "(string \<rightharpoonup> Document) \<Rightarrow> string \<Rightarrow> bool" for documents where
  missing: "documents i = None \<Longrightarrow> chain_ends documents i"
| root: "documents i = Some d \<Longrightarrow> doc_parentDocumentId d = None \<Longrightarrow> chain_ends documents i"
| step: "documents i = Some d \<Longrightarrow> doc_parentDocumentId d = Some parent \<Longrightarrow>
         chain_ends documents parent \<Longrightarrow> chain_ends documents i"

code_pred (modes: i \<Rightarrow> i \<Rightarrow> bool) chain_ends .

text \<open>\<open>ancestorOf documents a i\<close>: the document \<open>a\<close> is a strict ancestor of \<open>i\<close>.\<close>

inductive ancestorOf :: "(string \<rightharpoonup> Document) \<Rightarrow> string \<Rightarrow> string \<Rightarrow> bool" for documents where
  parent: "documents i = Some d \<Longrightarrow> doc_parentDocumentId d = Some a \<Longrightarrow> documents a = Some d' \<Longrightarrow>
           ancestorOf documents a i"
| further: "documents i = Some d \<Longrightarrow> doc_parentDocumentId d = Some b \<Longrightarrow> ancestorOf documents a b \<Longrightarrow>
           ancestorOf documents a i"

code_pred (modes: i \<Rightarrow> o \<Rightarrow> i \<Rightarrow> bool, i \<Rightarrow> i \<Rightarrow> i \<Rightarrow> bool) ancestorOf .

text \<open>
  The explain-set the specification gives for a document: workspace grants with inherit
  mode children, collection grants with inherit mode children when a collection id is
  given, the grants on exactly this document (direct), and the grants with inherit mode
  children on a strict ancestor (inherited); active grants of the team only.
\<close>

definition spec_resolveForDocument ::
  "Database \<Rightarrow> string \<Rightarrow> string \<Rightarrow> string option \<Rightarrow> ResolvedPermission set" where
  "spec_resolveForDocument db teamId documentId collectionId =
     toResolved Inherited `
       {p \<in> set (db_permissions db). perm_teamId p = teamId \<and> perm_deletedAt p = None \<and>
          perm_resourceType p = ResWorkspace \<and> perm_inheritMode p = InheritChildren}
     \<union> toResolved Inherited `
       {p \<in> set (db_permissions db). perm_teamId p = teamId \<and> perm_deletedAt p = None \<and>
          perm_resourceType p = ResCollection \<and> collectionId \<noteq> None \<and>
          perm_resourceId p = collectionId \<and> perm_inheritMode p = InheritChildren}
     \<union> toResolved Direct `
       {p \<in> set (db_permissions db). perm_teamId p = teamId \<and> perm_deletedAt p = None \<and>
          perm_resourceType p = ResDocument \<and> perm_resourceId p = Some documentId}
     \<union> toResolved Inherited `
       {p \<in> set (db_permissions db). perm_teamId p = teamId \<and> perm_deletedAt p = None \<and>
          perm_resourceType p = ResDocument \<and> perm_inheritMode p = InheritChildren \<and>
          (\<exists>a. perm_resourceId p = Some a \<and> ancestorOf (db_documents db) a documentId)}"

text \<open>
  The ranking of the specification, \<open>Read = 0 < Edit = 1 < Manage = 2\<close>, with "no access"
  below \<open>Read\<close>.
\<close>

fun spec_levelRank :: "PermissionLevel \<Rightarrow> int" where
  "spec_levelRank LevelRead = 0"
| "spec_levelRank LevelEdit = 1"
| "spec_levelRank LevelManage = 2"

fun spec_rank :: "DocumentPermission option \<Rightarrow> int" where
  "spec_rank None = - 1"
| "spec_rank (Some DocRead) = 0"
| "spec_rank (Some DocEdit) = 1"
| "spec_rank (Some DocManage) = 2"

text \<open>
  The subject matching the specification gives for the calculator: the user's id, the
  user's current role, or a group of the user's current groups.
\<close>

definition spec_subjectMatches :: "Database \<Rightarrow> string \<Rightarrow> User \<Rightarrow> ResolvedPermission \<Rightarrow> bool" where
  "spec_subjectMatches db userId user g =
     ((rp_subjectType g = SubjectUser \<and> rp_subjectId g = Some userId) \<or>
      (rp_subjectType g = SubjectRole \<and> rp_subjectRole g = Some (user_role user)) \<or>
      (rp_subjectType g = SubjectGroup \<and>
       (\<exists>gid \<in> set (db_groupsByMember db userId). rp_subjectId g = Some gid)))"

text \<open>
  The check constraint \<^verbatim>\<open>permissions_subject_consistency_check\<close> of the migration that
  creates the table.
\<close>

definition subject_consistent :: "Permission \<Rightarrow> bool" where
  "subject_consistent p =
     ((perm_subjectType p = SubjectRole \<and> perm_subjectRole p \<noteq> None \<and> perm_subjectId p = None) \<or>
      ((perm_subjectType p = SubjectUser \<or> perm_subjectType p = SubjectGroup) \<and>
       perm_subjectId p \<noteq> None \<and> perm_subjectRole p = None))"

text \<open>
  What the specification asks of a route that creates a grant. When it raises, the error
  is not a violation of the unique index and no row has changed. When it returns the
  grant \<open>g\<close>, then \<open>g\<close> is active and was appended to the rows; every earlier row is kept
  and is as before or, if it was active, soft-deleted now; and every earlier active row
  with the key of \<open>g\<close> is soft-deleted.
\<close>

definition spec_outcome ::
  "nat \<Rightarrow> Permission list \<Rightarrow> (error + Permission) \<times> Permission list \<Rightarrow> bool" where
  "spec_outcome now rows out =
     (case fst out of
        Inl e \<Rightarrow> e \<noteq> UniqueConstraintError \<and> snd out = rows
      | Inr g \<Rightarrow>
          perm_deletedAt g = None \<and>
          snd out \<noteq> [] \<and> last (snd out) = g \<and>
          list_all2 (\<lambda>q q'. q' = q \<or>
              (perm_deletedAt q = None \<and> q' = q \<lparr> perm_deletedAt := Some now \<rparr>))
            rows (butlast (snd out)) \<and>
          list_all2 (\<lambda>q q'. perm_deletedAt q = None \<and> indexKey q = indexKey g \<longrightarrow>
              perm_deletedAt q' = Some now)
            rows (butlast (snd out)))"

section \<open>Example data\<close>

definition mkPermission ::
  "string \<Rightarrow> string \<Rightarrow> PermissionSubjectType \<Rightarrow> string option \<Rightarrow> string option \<Rightarrow>
   PermissionResourceType \<Rightarrow> string option \<Rightarrow> PermissionLevel \<Rightarrow> PermissionInheritMode \<Rightarrow>
   nat \<Rightarrow> nat option \<Rightarrow> Permission" where
  "mkPermission i team st sid srole rt rid lvl mode created deleted =
     \<lparr> perm_id = i, perm_teamId = team, perm_subjectType = st, perm_subjectId = sid,
       perm_subjectRole = srole, perm_resourceType = rt, perm_resourceId = rid,
       perm_permission = lvl, perm_inheritMode = mode, perm_grantedById = ''admin'',
       perm_createdAt = created, perm_deletedAt = deleted \<rparr>"

definition mkDocument :: "string \<Rightarrow> string option \<Rightarrow> string option \<Rightarrow> Document" where
  "mkDocument i coll par =
     \<lparr> doc_id = i, doc_collectionId = coll, doc_parentDocumentId = par,
       doc_permissionGrants = None \<rparr>"

definition mkUser :: "string \<Rightarrow> string \<Rightarrow> string \<Rightarrow> User" where
  "mkUser i team r =
     \<lparr> user_id = i, user_teamId = team, user_role = r,
       user_defaultDocumentPermission = DocRead, user_defaultCollectionPermission = CollRead \<rparr>"

definition ex_permissions :: "Permission list" where
  "ex_permissions =
     [mkPermission ''g1'' ''t1'' SubjectRole None (Some ''viewer'') ResWorkspace None LevelRead InheritChildren 1 None,
      mkPermission ''g2'' ''t1'' SubjectUser (Some ''u1'') None ResCollection (Some ''c1'') LevelEdit InheritChildren 2 None,
      mkPermission ''g3'' ''t1'' SubjectUser (Some ''u1'') None ResDocument (Some ''d3'') LevelRead InheritSelf 3 None,
      mkPermission ''g4'' ''t1'' SubjectGroup (Some ''gr1'') None ResDocument (Some ''d1'') LevelManage InheritChildren 4 None,
      mkPermission ''g5'' ''t1'' SubjectUser (Some ''u2'') None ResDocument (Some ''d2'') LevelEdit InheritSelf 5 None,
      mkPermission ''g6'' ''t1'' SubjectUser (Some ''u1'') None ResDocument (Some ''d3'') LevelManage InheritSelf 6 (Some 7),
      mkPermission ''g7'' ''t2'' SubjectUser (Some ''u1'') None ResWorkspace None LevelManage InheritChildren 8 None,
      mkPermission ''g8'' ''t1'' SubjectRole None (Some ''editor'') ResWorkspace None LevelRead InheritSelf 9 None,
      mkPermission ''g9'' ''t1'' SubjectRole None (Some ''viewer'') ResCollection (Some ''c1'') LevelRead InheritSelf 10 None]"

text \<open>Three nested documents \<open>d3\<close> in \<open>d2\<close> in \<open>d1\<close> of collection \<open>c1\<close>.\<close>

definition ex_documents :: "string \<rightharpoonup> Document" where
  "ex_documents =
     [''d1'' \<mapsto> mkDocument ''d1'' (Some ''c1'') None,
      ''d2'' \<mapsto> mkDocument ''d2'' (Some ''c1'') (Some ''d1''),
      ''d3'' \<mapsto> mkDocument ''d3'' (Some ''c1'') (Some ''d2'')]"

definition ex_db :: Database where
  "ex_db =
     \<lparr> db_sequelize = True,
       db_documents = ex_documents,
       db_collections = Map.empty,
       db_users = [''u1'' \<mapsto> mkUser ''u1'' ''t1'' ''editor'', ''u2'' \<mapsto> mkUser ''u2'' ''t1'' ''viewer'',
                   ''u3'' \<mapsto> mkUser ''u3'' ''t1'' ''viewer''],
       db_groups = [''gr1''],
       db_groupsByMember = (\<lambda>u. if u = ''u2'' then [''gr1''] else []),
       db_permissions = ex_permissions \<rparr>"

text \<open>Two documents that are each other's parent.\<close>

definition cyclic_documents :: "string \<rightharpoonup> Document" where
  "cyclic_documents =
     [''A'' \<mapsto> mkDocument ''A'' None (Some ''B''),
      ''B'' \<mapsto> mkDocument ''B'' None (Some ''A'')]"

definition cyclic_db :: Database where
  "cyclic_db = ex_db \<lparr> db_documents := cyclic_documents \<rparr>"

text \<open>
  A collection with a workspace grant and two grants of its own, and another spelling of
  its id.
\<close>

definition ex_collection_id :: string where
  "ex_collection_id = ''0b6e9f3c-1d2a-4b5c-8e7f-a1b2c3d4e5f6''"

definition ex_collection_id_upper :: string where
  "ex_collection_id_upper = ''0B6E9F3C-1D2A-4B5C-8E7F-A1B2C3D4E5F6''"

definition uuid_permissions :: "Permission list" where
  "uuid_permissions =
     [mkPermission ''h1'' ''t1'' SubjectRole None (Some ''viewer'') ResWorkspace None LevelRead InheritChildren 1 None,
      mkPermission ''h2'' ''t1'' SubjectUser (Some ''u1'') None ResCollection (Some ex_collection_id) LevelEdit InheritChildren 2 None,
      mkPermission ''h3'' ''t1'' SubjectRole None (Some ''viewer'') ResCollection (Some ex_collection_id) LevelRead InheritSelf 3 None]"

definition uuid_db :: Database where
  "uuid_db = ex_db \<lparr> db_permissions := uuid_permissions \<rparr>"

text \<open>Rules that allow everything, and a request of user \<open>u2\<close>.\<close>

definition allow_all :: Policies where
  "allow_all =
     \<lparr> can_manageUsers = (\<lambda>actor document. True),
       can_readUser = (\<lambda>actor user. True),
       can_readGroup = (\<lambda>actor group. True),
       can_updateCollection = (\<lambda>actor collection. True) \<rparr>"

definition ex_request :: Request where
  "ex_request = \<lparr> req_actor = mkUser ''u2'' ''t1'' ''viewer'', req_now = 20, req_newId = ''g10'' \<rparr>"

section \<open>Helper lemmas\<close>

lemma set_findAll: "set (findAll wh rows) = {p \<in> set rows. wh p}"
  by (simp add: findAll_def)

lemma length_findAll: "length (findAll wh rows) = length (filter wh rows)"
  by (simp add: findAll_def)

lemma toResolved_id: "rp_id (toResolved s p) = perm_id p"
  by (simp add: toResolved_def)

lemma set_tagged:
  "set (map (\<lambda>p. toResolved (if D p then Direct else Inherited) p) xs) =
     toResolved Direct ` {p \<in> set xs. D p} \<union> toResolved Inherited ` {p \<in> set xs. \<not> D p}"
  by (induction xs) auto

lemma workspace_no_id:
  assumes "\<forall>p \<in> set rows. resource_consistent p"
    and "p \<in> set rows" and "perm_resourceType p = ResWorkspace"
  shows "perm_resourceId p = None"
  using assms by (auto simp: resource_consistent_def)

lemma unique_by_id:
  assumes "distinct (map perm_id rows)" and "p \<in> set rows" and "q \<in> set rows"
    and "perm_id q = perm_id p"
  shows "q = p"
  using assms by (meson distinct_map inj_on_def)

lemma ex_permissions_consistent: "\<forall>p \<in> set ex_permissions. resource_consistent p"
  by (simp add: ex_permissions_def mkPermission_def resource_consistent_def)

lemma ex_permissions_distinct: "distinct (map perm_id ex_permissions)"
  by (simp add: ex_permissions_def mkPermission_def)

section \<open>resolveForCollection\<close>

text \<open>
  For a collection id in the text of the table, \<open>resolveForCollection\<close> returns exactly
  the explain-set of the specification, one entry for each qualifying row, and no id of a
  soft-deleted grant.
\<close>

lemma resolveForCollection_canonical_id:
  assumes canon: "uuid_in c = Some c"
    and cons: "\<forall>p \<in> set (db_permissions db). resource_consistent p"
    and pk: "distinct (map perm_id (db_permissions db))"
  shows "\<exists>rs. resolveForCollection db t c = Inr rs \<and>
    set rs = spec_resolveForCollection db t c \<and>
    length rs =
      length (filter (\<lambda>p. perm_teamId p = t \<and> perm_deletedAt p = None \<and>
        ((perm_resourceType p = ResCollection \<and> perm_resourceId p = Some c) \<or>
         (perm_resourceType p = ResWorkspace \<and> perm_inheritMode p = InheritChildren)))
        (db_permissions db)) \<and>
    (\<forall>p \<in> set (db_permissions db). perm_deletedAt p \<noteq> None \<longrightarrow> perm_id p \<notin> rp_id ` set rs)"
proof -
  let ?W = "\<lambda>p. perm_teamId p = t \<and> perm_deletedAt p = None \<and>
            ((perm_resourceType p = ResCollection \<and> perm_resourceId p = Some c) \<or>
             (perm_resourceType p = ResWorkspace \<and> perm_resourceId p = None \<and>
              perm_inheritMode p = InheritChildren))"
  define rs where "rs = map (\<lambda>p. toResolved
      (if perm_resourceType p = ResCollection \<and> perm_resourceId p = Some c
       then Direct else Inherited) p) (findAll ?W (db_permissions db))"
  have r: "resolveForCollection db t c = Inr rs"
    by (simp add: resolveForCollection_def canon Let_def rs_def)
  have ws: "perm_resourceId p = None"
    if "p \<in> set (db_permissions db)" "perm_resourceType p = ResWorkspace" for p
    using workspace_no_id [OF cons that] .
  have direct: "{p \<in> {p \<in> set (db_permissions db). ?W p}.
          perm_resourceType p = ResCollection \<and> perm_resourceId p = Some c} =
      {p \<in> set (db_permissions db). perm_teamId p = t \<and> perm_deletedAt p = None \<and>
          perm_resourceType p = ResCollection \<and> perm_resourceId p = Some c}"
    by auto
  have inherited: "{p \<in> {p \<in> set (db_permissions db). ?W p}.
          \<not> (perm_resourceType p = ResCollection \<and> perm_resourceId p = Some c)} =
      {p \<in> set (db_permissions db). perm_teamId p = t \<and> perm_deletedAt p = None \<and>
          perm_resourceType p = ResWorkspace \<and> perm_inheritMode p = InheritChildren}"
    using ws by auto
  have s: "set rs = spec_resolveForCollection db t c"
    unfolding rs_def spec_resolveForCollection_def set_tagged set_findAll direct inherited
    by (simp add: Un_commute)
  have "filter (\<lambda>p. perm_teamId p = t \<and> perm_deletedAt p = None \<and>
        ((perm_resourceType p = ResCollection \<and> perm_resourceId p = Some c) \<or>
         (perm_resourceType p = ResWorkspace \<and> perm_inheritMode p = InheritChildren)))
        (db_permissions db) = filter ?W (db_permissions db)"
    by (rule filter_cong) (auto dest: workspace_no_id [OF cons])
  then have l: "length rs =
      length (filter (\<lambda>p. perm_teamId p = t \<and> perm_deletedAt p = None \<and>
        ((perm_resourceType p = ResCollection \<and> perm_resourceId p = Some c) \<or>
         (perm_resourceType p = ResWorkspace \<and> perm_inheritMode p = InheritChildren)))
        (db_permissions db))"
    by (simp add: rs_def length_findAll)
  have n: "perm_id p \<notin> rp_id ` set rs"
    if p: "p \<in> set (db_permissions db)" "perm_deletedAt p \<noteq> None" for p
  proof
    assume "perm_id p \<in> rp_id ` set rs"
    then obtain q where q: "q \<in> set (db_permissions db)" "perm_deletedAt q = None"
        "perm_id q = perm_id p"
      by (auto simp: rs_def set_findAll toResolved_id)
    from unique_by_id [OF pk p(1) q(1,3)] q(2) p(2) show False by simp
  qed
  from r s l n show ?thesis by blast
qed

lemma uuid_in_ex_collection_id: "uuid_in ex_collection_id = Some ex_collection_id"
  unfolding ex_collection_id_def by code_simp

lemma uuid_in_ex_collection_id_upper: "uuid_in ex_collection_id_upper = Some ex_collection_id"
  unfolding ex_collection_id_def ex_collection_id_upper_def by code_simp

lemma upper_differs: "ex_collection_id \<noteq> ex_collection_id_upper"
  by (simp add: ex_collection_id_def ex_collection_id_upper_def)

text \<open>
  Claim C5, at an id in another spelling. For the id of a collection written in upper
  case, as \<^verbatim>\<open>collections.permissions\<close> passes it on from the request, the query finds the
  grants of the collection, and \<open>resolveForCollection\<close> tags them inherited: the comparison
  by \<^verbatim>\<open>===\<close> with the text of the row fails. For the same collection under the text of
  the table its two grants are tagged direct.
\<close>

theorem resolveForCollection_other_spelling:
  "map_sum id (map (\<lambda>r. (rp_id r, rp_source r)))
     (resolveForCollection uuid_db ''t1'' ex_collection_id_upper) =
     Inr [(''h3'', Inherited), (''h2'', Inherited), (''h1'', Inherited)] \<and>
   map_sum id (map (\<lambda>r. (rp_id r, rp_source r)))
     (resolveForCollection uuid_db ''t1'' ex_collection_id) =
     Inr [(''h3'', Direct), (''h2'', Direct), (''h1'', Inherited)]"
  using upper_differs
  by (simp add: resolveForCollection_def uuid_in_ex_collection_id uuid_in_ex_collection_id_upper
      findAll_def uuid_db_def uuid_permissions_def mkPermission_def DEFAULT_ORDER_def
      toResolved_def Let_def)

lemma resolveForCollection_not_uuid:
  "resolveForCollection uuid_db ''t1'' ''c1'' = Inl DatabaseError"
  by (simp add: resolveForCollection_def) code_simp

lemma ancestry_returns: "chain_ends documents i \<Longrightarrow> \<exists>ys. ancestry documents i = Some ys"
proof (induction rule: chain_ends.induct)
  case (missing i)
  then show ?case by (subst ancestry.simps) simp
next
  case (root i d)
  then show ?case by (subst ancestry.simps) simp
next
  case (step i d parent)
  then obtain ys where "ancestry documents parent = Some ys" by blast
  with step.hyps show ?case by (subst ancestry.simps) simp
qed

lemma ancestry_chain_ends:
  assumes "ancestry docs j = Some zs"
  shows "chain_ends docs j"
proof (rule ancestry.raw_induct[where P = "\<lambda>documents i ys. chain_ends documents i", OF _ assms], goal_cases)
  case (1 f documents i ys)
  show ?case
  proof (cases "documents i")
    case None then show ?thesis by (rule chain_ends.missing)
  next
    case (Some d)
    note d = this
    show ?thesis
    proof (cases "doc_parentDocumentId d")
      case None with d show ?thesis by (rule chain_ends.root)
    next
      case (Some parent)
      with d 1(2) obtain zs where "f documents parent = Some zs"
        by (auto simp: bind_eq_Some_conv)
      then have "chain_ends documents parent" by (rule 1(1))
      with d Some show ?thesis by (rule chain_ends.step)
    qed
  qed
qed

lemma ancestorOf_row: "ancestorOf documents a i \<Longrightarrow> documents i \<noteq> None \<and> documents a \<noteq> None"
  by (induction rule: ancestorOf.induct) auto

lemma ancestorOf_cases:
  assumes "documents i = Some d" "doc_parentDocumentId d = Some b"
  shows "ancestorOf documents a i \<longleftrightarrow> (a = b \<and> documents b \<noteq> None) \<or> ancestorOf documents a b"
proof
  assume "ancestorOf documents a i"
  then show "(a = b \<and> documents b \<noteq> None) \<or> ancestorOf documents a b"
    using assms by (cases rule: ancestorOf.cases) auto
next
  assume "(a = b \<and> documents b \<noteq> None) \<or> ancestorOf documents a b"
  then show "ancestorOf documents a i"
    using assms by (auto intro: ancestorOf.parent ancestorOf.further)
qed

lemma ancestorOf_trans:
  "ancestorOf documents b c \<Longrightarrow> ancestorOf documents a b \<Longrightarrow> ancestorOf documents a c"
  by (induction rule: ancestorOf.induct) (auto intro: ancestorOf.further)

lemma chain_ends_irrefl: "chain_ends documents i \<Longrightarrow> \<not> ancestorOf documents i i"
proof (induction rule: chain_ends.induct)
  case (missing i)
  then show ?case using ancestorOf_row by blast
next
  case (root i d)
  then show ?case by (auto elim: ancestorOf.cases)
next
  case (step i d b)
  show ?case
  proof
    assume a: "ancestorOf documents i i"
    then have "(i = b \<and> documents b \<noteq> None) \<or> ancestorOf documents i b"
      using ancestorOf_cases [of documents i d b, OF step.hyps(1,2)] by simp
    then show False
    proof
      assume "i = b \<and> documents b \<noteq> None"
      with a step.IH show False by simp
    next
      assume ib: "ancestorOf documents i b"
      then have "documents b \<noteq> None" using ancestorOf_row by blast
      then have "ancestorOf documents b i"
        using step.hyps(1,2) by (auto intro: ancestorOf.parent)
      from ancestorOf_trans [OF ib this] step.IH show False by simp
    qed
  qed
qed

lemma ancestry_set:
  "chain_ends documents i \<Longrightarrow> ancestry documents i = Some ys \<Longrightarrow>
   set ys = (if documents i = None then {} else {i}) \<union> {a. ancestorOf documents a i}"
proof (induction arbitrary: ys rule: chain_ends.induct)
  case (missing i)
  from missing(2) missing(1) have "ys = []" by (subst (asm) ancestry.simps) simp
  moreover have "\<not> ancestorOf documents a i" for a using missing(1) ancestorOf_row by blast
  ultimately show ?case using missing(1) by simp
next
  case (root i d)
  from root(3) root(1,2) have "ys = [i]" by (subst (asm) ancestry.simps) simp
  moreover have "\<not> ancestorOf documents a i" for a
    using root(1,2) by (auto elim: ancestorOf.cases)
  ultimately show ?case using root(1) by simp
next
  case (step i d b)
  from step.prems step.hyps(1,2) obtain zs where zs: "ancestry documents b = Some zs" "ys = i # zs"
    by (subst (asm) ancestry.simps) (auto simp: bind_eq_Some_conv)
  from step.IH [OF zs(1)] have "set zs = (if documents b = None then {} else {b}) \<union> {a. ancestorOf documents a b}" .
  moreover have "{a. ancestorOf documents a i} = (if documents b = None then {} else {b}) \<union> {a. ancestorOf documents a b}"
    using ancestorOf_cases [of documents i d b, OF step.hyps(1,2)] by auto
  ultimately show ?case using zs(2) step.hyps(1) by auto
qed

lemma strict_ancestors:
  assumes "chain_ends documents i" "ancestry documents i = Some ys"
  shows "set (filter (\<lambda>a. a \<noteq> i) ys) = {a. ancestorOf documents a i}"
  using ancestry_set [OF assms] chain_ends_irrefl [OF assms(1)] by auto

lemma resolveForDocument_unfold:
  assumes "findAncestorDocumentIds db d = Some ys"
  obtains wh where
    "resolveForDocument db t d c =
      Some (map (\<lambda>p. toResolved (if perm_resourceType p = ResDocument \<and> perm_resourceId p = Some d
                                   then Direct else Inherited) p)
        (findAll (\<lambda>p. perm_teamId p = t \<and> perm_deletedAt p = None \<and> wh p) (db_permissions db)))"
    and "\<And>p. wh p \<longleftrightarrow>
         ((perm_resourceType p = ResWorkspace \<and> perm_resourceId p = None \<and>
           perm_inheritMode p = InheritChildren) \<or>
          (perm_resourceType p = ResDocument \<and> perm_resourceId p = Some d) \<or>
          (truthy c \<and> perm_resourceType p = ResCollection \<and> perm_resourceId p = c \<and>
           perm_inheritMode p = InheritChildren) \<or>
          (perm_resourceType p = ResDocument \<and>
           (\<exists>a. perm_resourceId p = Some a \<and> a \<in> set (filter (\<lambda>i. i \<noteq> d) ys)) \<and>
           perm_inheritMode p = InheritChildren))"
proof -
  define wh where "wh = (\<lambda>p::Permission. list_ex (\<lambda>clause. clause p)
            ([\<lambda>p. perm_resourceType p = ResWorkspace \<and> perm_resourceId p = None \<and>
                   perm_inheritMode p = InheritChildren,
              \<lambda>p. perm_resourceType p = ResDocument \<and> perm_resourceId p = Some d]
             @ (if truthy c
                then [\<lambda>p. perm_resourceType p = ResCollection \<and>
                           perm_resourceId p = c \<and>
                           perm_inheritMode p = InheritChildren]
                else [])
             @ (if filter (\<lambda>i. i \<noteq> d) ys \<noteq> []
                then [\<lambda>p. perm_resourceType p = ResDocument \<and>
                           (case perm_resourceId p of
                              None \<Rightarrow> False
                            | Some r \<Rightarrow> r \<in> set (filter (\<lambda>i. i \<noteq> d) ys)) \<and>
                           perm_inheritMode p = InheritChildren]
                else [])))"
  have 1: "resolveForDocument db t d c =
      Some (map (\<lambda>p. toResolved (if perm_resourceType p = ResDocument \<and> perm_resourceId p = Some d
                                   then Direct else Inherited) p)
        (findAll (\<lambda>p. perm_teamId p = t \<and> perm_deletedAt p = None \<and> wh p) (db_permissions db)))"
    by (simp only: resolveForDocument_def Let_def assms Option.bind.simps wh_def)
  have 2: "wh p \<longleftrightarrow>
         ((perm_resourceType p = ResWorkspace \<and> perm_resourceId p = None \<and>
           perm_inheritMode p = InheritChildren) \<or>
          (perm_resourceType p = ResDocument \<and> perm_resourceId p = Some d) \<or>
          (truthy c \<and> perm_resourceType p = ResCollection \<and> perm_resourceId p = c \<and>
           perm_inheritMode p = InheritChildren) \<or>
          (perm_resourceType p = ResDocument \<and>
           (\<exists>a. perm_resourceId p = Some a \<and> a \<in> set (filter (\<lambda>i. i \<noteq> d) ys)) \<and>
           perm_inheritMode p = InheritChildren))" for p
    unfolding wh_def by (cases "perm_resourceId p") (auto simp: filter_empty_conv)
  from 1 2 show ?thesis by (rule that)
qed

lemma resolveForDocument_set:
  assumes seq: "db_sequelize db"
    and ends: "chain_ends (db_documents db) d"
    and cons: "\<forall>p \<in> set (db_permissions db). resource_consistent p"
    and cid: "c \<noteq> Some []"
  shows "\<exists>rs. resolveForDocument db t d c = Some rs \<and> set rs = spec_resolveForDocument db t d c"
proof -
  from ancestry_returns [OF ends] obtain ys where ys: "ancestry (db_documents db) d = Some ys" by blast
  then have f: "findAncestorDocumentIds db d = Some ys"
    using seq by (simp add: findAncestorDocumentIds_def)
  from resolveForDocument_unfold [OF f, of t c] obtain wh where
    r: "resolveForDocument db t d c =
      Some (map (\<lambda>p. toResolved (if perm_resourceType p = ResDocument \<and> perm_resourceId p = Some d
                                   then Direct else Inherited) p)
        (findAll (\<lambda>p. perm_teamId p = t \<and> perm_deletedAt p = None \<and> wh p) (db_permissions db)))"
    and wh: "\<And>p. wh p \<longleftrightarrow>
         ((perm_resourceType p = ResWorkspace \<and> perm_resourceId p = None \<and>
           perm_inheritMode p = InheritChildren) \<or>
          (perm_resourceType p = ResDocument \<and> perm_resourceId p = Some d) \<or>
          (truthy c \<and> perm_resourceType p = ResCollection \<and> perm_resourceId p = c \<and>
           perm_inheritMode p = InheritChildren) \<or>
          (perm_resourceType p = ResDocument \<and>
           (\<exists>a. perm_resourceId p = Some a \<and> a \<in> set (filter (\<lambda>i. i \<noteq> d) ys)) \<and>
           perm_inheritMode p = InheritChildren))"
    by blast
  have anc: "a \<in> set (filter (\<lambda>i. i \<noteq> d) ys) \<longleftrightarrow> ancestorOf (db_documents db) a d" for a
    using strict_ancestors [OF ends ys] by blast
  have notself: "\<not> ancestorOf (db_documents db) d d"
    using chain_ends_irrefl [OF ends] .
  have tr: "truthy c \<longleftrightarrow> c \<noteq> None" using cid by (cases c) auto
  have ws: "perm_resourceId p = None"
    if "p \<in> set (db_permissions db)" "perm_resourceType p = ResWorkspace" for p
    using workspace_no_id [OF cons that] .
  let ?S = "set (db_permissions db)"
  let ?W = "\<lambda>p. perm_teamId p = t \<and> perm_deletedAt p = None \<and> wh p"
  have direct: "{p \<in> {p \<in> ?S. ?W p}. perm_resourceType p = ResDocument \<and> perm_resourceId p = Some d} =
      {p \<in> ?S. perm_teamId p = t \<and> perm_deletedAt p = None \<and>
          perm_resourceType p = ResDocument \<and> perm_resourceId p = Some d}"
    unfolding wh by auto
  have inherited: "{p \<in> {p \<in> ?S. ?W p}. \<not> (perm_resourceType p = ResDocument \<and> perm_resourceId p = Some d)} =
      {p \<in> ?S. perm_teamId p = t \<and> perm_deletedAt p = None \<and>
          perm_resourceType p = ResWorkspace \<and> perm_inheritMode p = InheritChildren}
      \<union> {p \<in> ?S. perm_teamId p = t \<and> perm_deletedAt p = None \<and>
          perm_resourceType p = ResCollection \<and> c \<noteq> None \<and>
          perm_resourceId p = c \<and> perm_inheritMode p = InheritChildren}
      \<union> {p \<in> ?S. perm_teamId p = t \<and> perm_deletedAt p = None \<and>
          perm_resourceType p = ResDocument \<and> perm_inheritMode p = InheritChildren \<and>
          (\<exists>a. perm_resourceId p = Some a \<and> ancestorOf (db_documents db) a d)}"
    unfolding wh anc tr using ws notself by auto
  have "set (map (\<lambda>p. toResolved (if perm_resourceType p = ResDocument \<and> perm_resourceId p = Some d
                                 then Direct else Inherited) p) (findAll ?W (db_permissions db))) =
        spec_resolveForDocument db t d c"
    unfolding set_tagged set_findAll direct inherited spec_resolveForDocument_def image_Un
    by auto
  then show ?thesis
    unfolding r by blast
qed

lemma resolveForDocument_ids:
  assumes "resolveForDocument db t d c = Some rs"
  obtains wh where
    "map rp_id rs = map perm_id (findAll (\<lambda>p. perm_teamId p = t \<and> perm_deletedAt p = None \<and> wh p)
       (db_permissions db))"
proof -
  from assms obtain ys where "findAncestorDocumentIds db d = Some ys"
    by (cases "findAncestorDocumentIds db d") (simp_all add: resolveForDocument_def)
  from resolveForDocument_unfold [OF this, of t c] obtain wh where
    "resolveForDocument db t d c =
      Some (map (\<lambda>p. toResolved (if perm_resourceType p = ResDocument \<and> perm_resourceId p = Some d
                                   then Direct else Inherited) p)
        (findAll (\<lambda>p. perm_teamId p = t \<and> perm_deletedAt p = None \<and> wh p) (db_permissions db)))"
    by blast
  with assms have "map rp_id rs =
      map perm_id (findAll (\<lambda>p. perm_teamId p = t \<and> perm_deletedAt p = None \<and> wh p) (db_permissions db))"
    by (auto simp: toResolved_id comp_def)
  then show ?thesis by (rule that)
qed

lemma distinct_findAll_ids:
  "distinct (map perm_id rows) \<Longrightarrow> distinct (map perm_id (findAll wh rows))"
  by (simp add: findAll_def distinct_map distinct_map_filter inj_on_def)

lemma resolveForDocument_returns:
  assumes "db_sequelize db \<longrightarrow> chain_ends (db_documents db) d"
  shows "\<exists>rs. resolveForDocument db t d c = Some rs"
proof (cases "db_sequelize db")
  case True
  with assms ancestry_returns obtain ys where "ancestry (db_documents db) d = Some ys" by blast
  then have "findAncestorDocumentIds db d = Some ys"
    using True by (simp add: findAncestorDocumentIds_def)
  then show ?thesis by (simp add: resolveForDocument_def Let_def)
next
  case False
  then have "findAncestorDocumentIds db d = Some [d]"
    by (simp add: findAncestorDocumentIds_def)
  then show ?thesis by (simp add: resolveForDocument_def Let_def)
qed

lemma resolveForDocument_Some_ancestors:
  assumes "resolveForDocument db t d c = Some rs"
  shows "\<exists>ys. findAncestorDocumentIds db d = Some ys"
  using assms by (cases "findAncestorDocumentIds db d") (simp_all add: resolveForDocument_def)

lemma resolveForDocument_length:
  assumes "resolveForDocument db t d c = Some rs"
  shows "length rs \<le> length (db_permissions db)"
proof -
  from resolveForDocument_ids [OF assms] obtain wh where
    "map rp_id rs = map perm_id (findAll (\<lambda>p. perm_teamId p = t \<and> perm_deletedAt p = None \<and> wh p)
       (db_permissions db))" by blast
  then have "length rs = length (findAll (\<lambda>p. perm_teamId p = t \<and> perm_deletedAt p = None \<and> wh p)
       (db_permissions db))"
    using length_map by metis
  then show ?thesis by (simp add: length_findAll)
qed

lemma cyclic_not_ends: "chain_ends cyclic_documents i \<Longrightarrow> i \<noteq> ''A'' \<and> i \<noteq> ''B''"
  by (induction rule: chain_ends.induct)
     (auto simp: cyclic_documents_def mkDocument_def split: if_splits)

section \<open>Termination of the ancestor query\<close>

text \<open>
  On two documents that are each other's parent the ancestor query does not return, and
  neither does \<open>resolveForDocument\<close>.
\<close>

theorem resolveForDocument_cycle_counterexample:
  "resolveForDocument cyclic_db ''t1'' ''A'' None = None"
proof (cases "resolveForDocument cyclic_db ''t1'' ''A'' None")
  case None
  then show ?thesis .
next
  case (Some rs)
  from resolveForDocument_Some_ancestors [OF this]
  obtain ys where "ancestry cyclic_documents ''A'' = Some ys"
    by (auto simp: findAncestorDocumentIds_def cyclic_db_def ex_db_def)
  from cyclic_not_ends [OF ancestry_chain_ends [OF this]] show ?thesis by simp
qed

text \<open>
  Claim C1, amended. \<open>resolveForDocument\<close> returns exactly when the parent chain of the
  document ends (at a document without parent, or at a parent id that is the id of no row),
  or the Document model is not bound to a connection; a result it returns has at most as
  many entries as the table has grants. The ancestor query has no guard against a
  document id it has already visited.
\<close>

theorem resolveForDocument_returns_iff:
  "((\<exists>rs. resolveForDocument db t d c = Some rs) \<longleftrightarrow>
      (db_sequelize db \<longrightarrow> chain_ends (db_documents db) d)) \<and>
   (\<forall>rs. resolveForDocument db t d c = Some rs \<longrightarrow> length rs \<le> length (db_permissions db))"
proof -
  have "db_sequelize db \<longrightarrow> chain_ends (db_documents db) d"
    if "resolveForDocument db t d c = Some rs" for rs
  proof
    assume s: "db_sequelize db"
    from resolveForDocument_Some_ancestors [OF that] s
    obtain ys where "ancestry (db_documents db) d = Some ys"
      by (auto simp: findAncestorDocumentIds_def)
    then show "chain_ends (db_documents db) d" by (rule ancestry_chain_ends)
  qed
  then show ?thesis
    using resolveForDocument_returns resolveForDocument_length by blast
qed

lemma ex_chain_d3: "chain_ends ex_documents ''d3''"
proof -
  have 1: "chain_ends ex_documents ''d1''"
    by (rule chain_ends.root [where d = "mkDocument ''d1'' (Some ''c1'') None"])
       (simp_all add: ex_documents_def mkDocument_def)
  have 2: "chain_ends ex_documents ''d2''"
    by (rule chain_ends.step [where d = "mkDocument ''d2'' (Some ''c1'') (Some ''d1'')", OF _ _ 1])
       (simp_all add: ex_documents_def mkDocument_def)
  show ?thesis
    by (rule chain_ends.step [where d = "mkDocument ''d3'' (Some ''c1'') (Some ''d2'')", OF _ _ 2])
       (simp_all add: ex_documents_def mkDocument_def)
qed

theorem resolveForDocument_returns_iff_witness:
  "\<exists>rs. resolveForDocument ex_db ''t1'' ''d3'' (Some ''c1'') = Some rs \<and> length rs \<le> 9"
proof -
  have e: "db_sequelize ex_db \<longrightarrow> chain_ends (db_documents ex_db) ''d3''"
    using ex_chain_d3 by (simp add: ex_db_def)
  have l: "length (db_permissions ex_db) = 9"
    by (simp add: ex_db_def ex_permissions_def)
  from resolveForDocument_returns_iff [of ex_db "''t1''" "''d3''" "Some ''c1''"] e l
  show ?thesis by auto
qed


lemma ex_ancestry_d3: "ancestry ex_documents ''d3'' = Some [''d3'', ''d2'', ''d1'']"
  by (simp add: ancestry.simps ex_documents_def mkDocument_def)

lemma ex_resolve_d3:
  "map_option (map (\<lambda>r. (rp_id r, rp_source r))) (resolveForDocument ex_db ''t1'' ''d3'' (Some ''c1'')) =
     Some [(''g2'', Inherited), (''g4'', Inherited), (''g3'', Direct), (''g1'', Inherited)]"
  by (simp add: resolveForDocument_def findAncestorDocumentIds_def ex_ancestry_d3 ex_db_def
      findAll_def ex_permissions_def mkPermission_def DEFAULT_ORDER_def toResolved_def)

section \<open>resolveForDocument\<close>

text \<open>
  Claim C6. For a document whose parent chain ends, \<open>resolveForDocument\<close> returns, and
  what it returns is exactly the union of the active grants of the team that are (a)
  workspace grants with inherit mode children, (b) grants with inherit mode children on
  the given collection, when a collection id is given, (c) grants on exactly this document
  with any inherit mode, tagged direct, and (d) grants with inherit mode children on a
  strict ancestor document, tagged inherited. No id occurs twice in the result, and no id
  of a soft-deleted grant occurs in it. The table is assumed to satisfy its resource
  consistency check and its primary key, and a collection id that is given is not the
  empty string.
\<close>

theorem resolveForDocument_explain_set:
  assumes seq: "db_sequelize db"
    and ends: "chain_ends (db_documents db) d"
    and cons: "\<forall>p \<in> set (db_permissions db). resource_consistent p"
    and pk: "distinct (map perm_id (db_permissions db))"
    and cid: "c \<noteq> Some []"
  shows "\<exists>rs. resolveForDocument db t d c = Some rs \<and>
    set rs = spec_resolveForDocument db t d c \<and>
    distinct (map rp_id rs) \<and>
    (\<forall>p \<in> set (db_permissions db). perm_deletedAt p \<noteq> None \<longrightarrow> perm_id p \<notin> rp_id ` set rs)"
proof -
  from resolveForDocument_set [OF seq ends cons cid, of t]
  obtain rs where rs: "resolveForDocument db t d c = Some rs"
      "set rs = spec_resolveForDocument db t d c" by blast
  from resolveForDocument_ids [OF rs(1)] obtain wh where
    ids: "map rp_id rs = map perm_id (findAll (\<lambda>p. perm_teamId p = t \<and> perm_deletedAt p = None \<and> wh p)
       (db_permissions db))" by blast
  have d: "distinct (map rp_id rs)"
    unfolding ids using pk by (rule distinct_findAll_ids)
  have nd: "perm_id p \<notin> rp_id ` set rs"
    if p: "p \<in> set (db_permissions db)" "perm_deletedAt p \<noteq> None" for p
  proof
    assume "perm_id p \<in> rp_id ` set rs"
    then have "perm_id p \<in> set (map rp_id rs)" by simp
    then obtain q where q: "q \<in> set (db_permissions db)" "perm_deletedAt q = None"
        "perm_id q = perm_id p"
      unfolding ids by (auto simp: set_findAll)
    from unique_by_id [OF pk p(1) q(1,3)] q(2) p(2) show False by simp
  qed
  from rs d nd show ?thesis by blast
qed

theorem resolveForDocument_explain_set_witness:
  "\<exists>rs. resolveForDocument ex_db ''t1'' ''d3'' (Some ''c1'') = Some rs \<and>
     set rs = spec_resolveForDocument ex_db ''t1'' ''d3'' (Some ''c1'') \<and>
     map (\<lambda>r. (rp_id r, rp_source r)) rs =
       [(''g2'', Inherited), (''g4'', Inherited), (''g3'', Direct), (''g1'', Inherited)]"
proof -
  have s: "db_sequelize ex_db" by (simp add: ex_db_def)
  have e: "chain_ends (db_documents ex_db) ''d3''"
    using ex_chain_d3 by (simp add: ex_db_def)
  have c: "\<forall>p \<in> set (db_permissions ex_db). resource_consistent p"
    using ex_permissions_consistent by (simp add: ex_db_def)
  have d: "distinct (map perm_id (db_permissions ex_db))"
    using ex_permissions_distinct by (simp add: ex_db_def)
  from resolveForDocument_explain_set [OF s e c d, of "Some ''c1''" "''t1''"] ex_resolve_d3
  show ?thesis by auto
qed

lemma first_orderBy_desc_None: "first (orderBy_desc xs f) = None \<longleftrightarrow> xs = []"
proof -
  have "first ys = None \<longleftrightarrow> ys = []" for ys :: "'a list" by (cases ys) auto
  then show ?thesis
    by (metis orderBy_desc_def length_sort length_0_conv)
qed

lemma first_orderBy_desc_Some:
  assumes "first (orderBy_desc xs f) = Some x"
  shows "x \<in> set xs \<and> (\<forall>y \<in> set xs. f y \<le> f x)"
proof -
  from assms obtain rest where r: "sort_key (\<lambda>x. - f x) xs = x # rest"
    unfolding orderBy_desc_def by (cases "sort_key (\<lambda>x. - f x) xs") auto
  have s: "set (x # rest) = set xs" using r set_sort by metis
  have "sorted (map (\<lambda>x. - f x) (x # rest))" using r sorted_sort_key by metis
  then have "\<forall>y \<in> set rest. - f x \<le> - f y" by simp
  with s show ?thesis by auto
qed

lemma subjectFilter_spec:
  assumes "[] \<notin> set (db_groupsByMember db userId)"
  shows "subjectFilter userId user (set (db_groupsByMember db userId)) g =
         spec_subjectMatches db userId user g"
proof (cases "rp_subjectType g")
  case SubjectUser
  then show ?thesis by (simp add: subjectFilter_def spec_subjectMatches_def)
next
  case SubjectRole
  then show ?thesis by (simp add: subjectFilter_def spec_subjectMatches_def)
next
  case SubjectGroup
  show ?thesis
  proof (cases "rp_subjectId g")
    case None
    with SubjectGroup show ?thesis by (simp add: subjectFilter_def spec_subjectMatches_def)
  next
    case (Some gid)
    with SubjectGroup assms show ?thesis
      by (auto simp: subjectFilter_def spec_subjectMatches_def)
  qed
qed

lemma getDocumentPermission_unfold:
  assumes "db_documents db documentId = Some document"
    and "doc_id document = documentId"
    and "db_users db userId = Some user"
    and "resolveForDocument db (user_teamId user) documentId (doc_collectionId document) = Some rs"
  shows "getDocumentPermission db userId documentId skip =
    Some (first (orderBy_desc
      (map levelOf
        (filter (subjectFilter userId user (set (db_groupsByMember db userId)))
          (filter (\<lambda>p. Some (rp_id p) \<noteq> skip) rs)))
      DocumentPermissionPriority))"
  using assms by (simp add: getDocumentPermission_def Let_def)

lemma priority_rank: "DocumentPermissionPriority l = spec_rank (Some l)"
  by (cases l) auto

lemma levelOf_rank: "spec_rank (Some (levelOf g)) = spec_levelRank (rp_permission g)"
  by (cases "rp_permission g") (auto simp: levelOf_def)

section \<open>The effective permission\<close>

text \<open>
  Claim C2. For a user and a document that exist (the parent chain of the document ends),
  \<open>getDocumentPermission\<close> returns; it returns no level exactly when no resolved grant
  matches the user, and otherwise a level whose rank is the rank of a matching grant and
  is at least the rank of every matching grant (\<open>Read = 0 < Edit = 1 < Manage = 2\<close>). A
  grant matches by the user's id, by the user's current role, or by a group among the
  user's current groups, which the calculator checks itself. Group ids are not empty.
\<close>

theorem getDocumentPermission_max:
  assumes doc: "db_documents db documentId = Some document"
    and did: "doc_id document = documentId"
    and user: "db_users db userId = Some user"
    and ends: "db_sequelize db \<longrightarrow> chain_ends (db_documents db) documentId"
    and gids: "[] \<notin> set (db_groupsByMember db userId)"
  shows "\<exists>rs r.
    resolveForDocument db (user_teamId user) documentId (doc_collectionId document) = Some rs \<and>
    getDocumentPermission db userId documentId None = Some r \<and>
    (r = None \<longleftrightarrow> \<not> (\<exists>g \<in> set rs. spec_subjectMatches db userId user g)) \<and>
    (\<forall>l. r = Some l \<longrightarrow>
       (\<exists>g \<in> set rs. spec_subjectMatches db userId user g \<and>
          spec_levelRank (rp_permission g) = spec_rank (Some l)) \<and>
       (\<forall>g \<in> set rs. spec_subjectMatches db userId user g \<longrightarrow>
          spec_levelRank (rp_permission g) \<le> spec_rank (Some l)))"
proof -
  from resolveForDocument_returns [OF ends] obtain rs where
    rs: "resolveForDocument db (user_teamId user) documentId (doc_collectionId document) = Some rs"
    by blast
  let ?ms = "filter (spec_subjectMatches db userId user) rs"
  let ?r = "first (orderBy_desc (map levelOf ?ms) DocumentPermissionPriority)"
  have sf: "subjectFilter userId user (set (db_groupsByMember db userId)) =
      spec_subjectMatches db userId user"
    by (rule ext) (rule subjectFilter_spec [OF gids])
  have g: "getDocumentPermission db userId documentId None = Some ?r"
    using getDocumentPermission_unfold [OF doc did user rs, of None]
    by (simp add: sf)
  have n: "?r = None \<longleftrightarrow> \<not> (\<exists>g \<in> set rs. spec_subjectMatches db userId user g)"
    by (simp add: first_orderBy_desc_None filter_empty_conv)
  have m: "(\<exists>g \<in> set rs. spec_subjectMatches db userId user g \<and>
          spec_levelRank (rp_permission g) = spec_rank (Some l)) \<and>
       (\<forall>g \<in> set rs. spec_subjectMatches db userId user g \<longrightarrow>
          spec_levelRank (rp_permission g) \<le> spec_rank (Some l))" if "?r = Some l" for l
  proof -
    from first_orderBy_desc_Some [OF that]
    have 1: "l \<in> set (map levelOf ?ms)"
      and 2: "\<forall>y \<in> set (map levelOf ?ms). DocumentPermissionPriority y \<le> DocumentPermissionPriority l"
      by blast+
    from 1 obtain g where "g \<in> set rs" "spec_subjectMatches db userId user g" "levelOf g = l"
      by auto
    then have a: "\<exists>g \<in> set rs. spec_subjectMatches db userId user g \<and>
          spec_levelRank (rp_permission g) = spec_rank (Some l)"
      using levelOf_rank by metis
    have b: "spec_levelRank (rp_permission g) \<le> spec_rank (Some l)"
      if "g \<in> set rs" "spec_subjectMatches db userId user g" for g
    proof -
      from that have "levelOf g \<in> set (map levelOf ?ms)" by simp
      with 2 have "DocumentPermissionPriority (levelOf g) \<le> DocumentPermissionPriority l" by blast
      then show ?thesis by (simp add: priority_rank levelOf_rank)
    qed
    from a b show ?thesis by blast
  qed
  show ?thesis
  proof (intro exI conjI)
    show "resolveForDocument db (user_teamId user) documentId (doc_collectionId document) = Some rs"
      by (rule rs)
    show "getDocumentPermission db userId documentId None = Some ?r" by (rule g)
    show "?r = None \<longleftrightarrow> \<not> (\<exists>g \<in> set rs. spec_subjectMatches db userId user g)" by (rule n)
    show "\<forall>l. ?r = Some l \<longrightarrow>
       (\<exists>g \<in> set rs. spec_subjectMatches db userId user g \<and>
          spec_levelRank (rp_permission g) = spec_rank (Some l)) \<and>
       (\<forall>g \<in> set rs. spec_subjectMatches db userId user g \<longrightarrow>
          spec_levelRank (rp_permission g) \<le> spec_rank (Some l))"
      by (intro allI impI) (rule m)
  qed
qed

text \<open>
  Claim C3. \<open>isElevatedPermission\<close> is true exactly when the rank of the new level is
  strictly greater than the rank of the current effective permission, where no
  permission has rank \<open>-1\<close>: with no access it is true for every level.
\<close>

theorem isElevatedPermission_rank:
  "isElevatedPermission db userId documentId permission skip =
     map_option (\<lambda>existing. spec_rank existing < spec_rank (Some permission))
       (getDocumentPermission db userId documentId skip) \<and>
   (getDocumentPermission db userId documentId skip = Some None \<longrightarrow>
      isElevatedPermission db userId documentId permission skip = Some True)"
proof -
  have "spec_rank None < spec_rank (Some permission)" by (cases permission) auto
  then show ?thesis
    by (cases "getDocumentPermission db userId documentId skip")
       (auto simp: isElevatedPermission_def priority_rank split: option.splits)
qed


lemma findAll_removal:
  "filter (\<lambda>r. rp_id r \<noteq> gid) (map (\<lambda>p. toResolved (T p) p) (findAll W xs)) =
   map (\<lambda>p. toResolved (T p) p) (findAll W (filter (\<lambda>p. perm_id p \<noteq> gid) xs))"
proof -
  have "filter (\<lambda>p. perm_id p \<noteq> gid) (filter W xs) = filter W (filter (\<lambda>p. perm_id p \<noteq> gid) xs)"
    by (simp add: conj_commute)
  then show ?thesis
    by (simp add: findAll_def filter_map comp_def toResolved_id filter_sort)
qed

lemma resolveForDocument_removal:
  "resolveForDocument (db \<lparr> db_permissions := filter (\<lambda>p. perm_id p \<noteq> gid) (db_permissions db) \<rparr>) t d c =
   map_option (filter (\<lambda>r. rp_id r \<noteq> gid)) (resolveForDocument db t d c)"
proof -
  let ?db = "db \<lparr> db_permissions := filter (\<lambda>p. perm_id p \<noteq> gid) (db_permissions db) \<rparr>"
  have a: "findAncestorDocumentIds ?db d = findAncestorDocumentIds db d"
    by (simp add: findAncestorDocumentIds_def)
  show ?thesis
  proof (cases "findAncestorDocumentIds db d")
    case None
    then show ?thesis by (simp add: resolveForDocument_def a)
  next
    case (Some ys)
    then show ?thesis
      unfolding resolveForDocument_def a Let_def
      by (simp add: findAll_removal)
  qed
qed

lemma getDocumentPermission_removal:
  "getDocumentPermission db userId documentId (Some gid) =
   getDocumentPermission (db \<lparr> db_permissions := filter (\<lambda>p. perm_id p \<noteq> gid) (db_permissions db) \<rparr>)
     userId documentId None"
  unfolding getDocumentPermission_def resolveForDocument_removal
  by (cases "db_documents db documentId"; cases "db_users db userId";
      cases "resolveForDocument db (user_teamId (the (db_users db userId)))
        (doc_id (the (db_documents db documentId)))
        (doc_collectionId (the (db_documents db documentId)))")
     (simp_all add: Let_def)

lemma getDocumentPermission_ranked:
  assumes doc: "db_documents db documentId = Some document"
    and did: "doc_id document = documentId"
    and user: "db_users db userId = Some user"
    and rs: "resolveForDocument db (user_teamId user) documentId (doc_collectionId document) = Some rs"
    and gids: "[] \<notin> set (db_groupsByMember db userId)"
  shows "\<exists>r. getDocumentPermission db userId documentId skip = Some r \<and>
    (r = None \<longleftrightarrow>
       \<not> (\<exists>g \<in> set rs. Some (rp_id g) \<noteq> skip \<and> spec_subjectMatches db userId user g)) \<and>
    (\<forall>l. r = Some l \<longrightarrow>
       (\<exists>g \<in> set rs. Some (rp_id g) \<noteq> skip \<and> spec_subjectMatches db userId user g \<and>
          spec_levelRank (rp_permission g) = spec_rank (Some l)) \<and>
       (\<forall>g \<in> set rs. Some (rp_id g) \<noteq> skip \<and> spec_subjectMatches db userId user g \<longrightarrow>
          spec_levelRank (rp_permission g) \<le> spec_rank (Some l)))"
proof -
  let ?ms = "filter (spec_subjectMatches db userId user) (filter (\<lambda>p. Some (rp_id p) \<noteq> skip) rs)"
  let ?r = "first (orderBy_desc (map levelOf ?ms) DocumentPermissionPriority)"
  have sf: "subjectFilter userId user (set (db_groupsByMember db userId)) =
      spec_subjectMatches db userId user"
    by (rule ext) (rule subjectFilter_spec [OF gids])
  have g: "getDocumentPermission db userId documentId skip = Some ?r"
    using getDocumentPermission_unfold [OF doc did user rs, of skip]
    by (simp add: sf)
  have n: "?r = None \<longleftrightarrow>
       \<not> (\<exists>g \<in> set rs. Some (rp_id g) \<noteq> skip \<and> spec_subjectMatches db userId user g)"
    by (auto simp: first_orderBy_desc_None filter_empty_conv)
  have m: "(\<exists>g \<in> set rs. Some (rp_id g) \<noteq> skip \<and> spec_subjectMatches db userId user g \<and>
          spec_levelRank (rp_permission g) = spec_rank (Some l)) \<and>
       (\<forall>g \<in> set rs. Some (rp_id g) \<noteq> skip \<and> spec_subjectMatches db userId user g \<longrightarrow>
          spec_levelRank (rp_permission g) \<le> spec_rank (Some l))" if "?r = Some l" for l
  proof -
    from first_orderBy_desc_Some [OF that]
    have 1: "l \<in> set (map levelOf ?ms)"
      and 2: "\<forall>y \<in> set (map levelOf ?ms). DocumentPermissionPriority y \<le> DocumentPermissionPriority l"
      by blast+
    from 1 obtain g where "g \<in> set rs" "Some (rp_id g) \<noteq> skip"
        "spec_subjectMatches db userId user g" "levelOf g = l"
      by auto
    then have a: "\<exists>g \<in> set rs. Some (rp_id g) \<noteq> skip \<and> spec_subjectMatches db userId user g \<and>
          spec_levelRank (rp_permission g) = spec_rank (Some l)"
      using levelOf_rank by metis
    have b: "spec_levelRank (rp_permission g) \<le> spec_rank (Some l)"
      if "g \<in> set rs" "Some (rp_id g) \<noteq> skip \<and> spec_subjectMatches db userId user g" for g
    proof -
      from that have "levelOf g \<in> set (map levelOf ?ms)" by simp
      with 2 have "DocumentPermissionPriority (levelOf g) \<le> DocumentPermissionPriority l" by blast
      then show ?thesis by (simp add: priority_rank levelOf_rank)
    qed
    from a b show ?thesis by blast
  qed
  show ?thesis
  proof (intro exI conjI)
    show "getDocumentPermission db userId documentId skip = Some ?r" by (rule g)
    show "?r = None \<longleftrightarrow>
       \<not> (\<exists>g \<in> set rs. Some (rp_id g) \<noteq> skip \<and> spec_subjectMatches db userId user g)"
      by (rule n)
    show "\<forall>l. ?r = Some l \<longrightarrow>
       (\<exists>g \<in> set rs. Some (rp_id g) \<noteq> skip \<and> spec_subjectMatches db userId user g \<and>
          spec_levelRank (rp_permission g) = spec_rank (Some l)) \<and>
       (\<forall>g \<in> set rs. Some (rp_id g) \<noteq> skip \<and> spec_subjectMatches db userId user g \<longrightarrow>
          spec_levelRank (rp_permission g) \<le> spec_rank (Some l))"
      by (intro allI impI) (rule m)
  qed
qed

text \<open>
  Claim C4. For a user and a document that exist, and every grant id: with that id
  skipped, \<open>getDocumentPermission\<close> returns the result it returns, with nothing skipped,
  on the table without the grant of that id; this result is no level exactly when no
  resolved grant with another id matches the user, and otherwise a level of the greatest
  rank among the matching resolved grants with another id. In particular, when exactly
  one resolved grant matches the user, skipping its id gives no level, and
  \<open>isElevatedPermission\<close> with that id skipped is true for \<open>Read\<close>.
\<close>

theorem skipMembershipId_removes_grant:
  assumes doc: "db_documents db documentId = Some document"
    and did: "doc_id document = documentId"
    and user: "db_users db userId = Some user"
    and ends: "db_sequelize db \<longrightarrow> chain_ends (db_documents db) documentId"
    and gids: "[] \<notin> set (db_groupsByMember db userId)"
  shows "\<exists>rs.
    resolveForDocument db (user_teamId user) documentId (doc_collectionId document) = Some rs \<and>
    (\<forall>gid. \<exists>r.
       getDocumentPermission db userId documentId (Some gid) = Some r \<and>
       getDocumentPermission
         (db \<lparr> db_permissions := filter (\<lambda>p. perm_id p \<noteq> gid) (db_permissions db) \<rparr>)
         userId documentId None = Some r \<and>
       (r = None \<longleftrightarrow>
          \<not> (\<exists>g \<in> set rs. rp_id g \<noteq> gid \<and> spec_subjectMatches db userId user g)) \<and>
       (\<forall>l. r = Some l \<longrightarrow>
          (\<exists>g \<in> set rs. rp_id g \<noteq> gid \<and> spec_subjectMatches db userId user g \<and>
             spec_levelRank (rp_permission g) = spec_rank (Some l)) \<and>
          (\<forall>g \<in> set rs. rp_id g \<noteq> gid \<and> spec_subjectMatches db userId user g \<longrightarrow>
             spec_levelRank (rp_permission g) \<le> spec_rank (Some l)))) \<and>
    (\<forall>g. filter (spec_subjectMatches db userId user) rs = [g] \<longrightarrow>
       getDocumentPermission db userId documentId (Some (rp_id g)) = Some None \<and>
       isElevatedPermission db userId documentId DocRead (Some (rp_id g)) = Some True)"
proof -
  from resolveForDocument_returns [OF ends] obtain rs where
    rs: "resolveForDocument db (user_teamId user) documentId (doc_collectionId document) = Some rs"
    by blast
  have general: "\<exists>r.
       getDocumentPermission db userId documentId (Some gid) = Some r \<and>
       getDocumentPermission
         (db \<lparr> db_permissions := filter (\<lambda>p. perm_id p \<noteq> gid) (db_permissions db) \<rparr>)
         userId documentId None = Some r \<and>
       (r = None \<longleftrightarrow>
          \<not> (\<exists>g \<in> set rs. rp_id g \<noteq> gid \<and> spec_subjectMatches db userId user g)) \<and>
       (\<forall>l. r = Some l \<longrightarrow>
          (\<exists>g \<in> set rs. rp_id g \<noteq> gid \<and> spec_subjectMatches db userId user g \<and>
             spec_levelRank (rp_permission g) = spec_rank (Some l)) \<and>
          (\<forall>g \<in> set rs. rp_id g \<noteq> gid \<and> spec_subjectMatches db userId user g \<longrightarrow>
             spec_levelRank (rp_permission g) \<le> spec_rank (Some l)))" for gid
    using getDocumentPermission_ranked [OF doc did user rs gids, of "Some gid"]
      getDocumentPermission_removal [of db userId documentId gid]
    by simp
  have sole: "getDocumentPermission db userId documentId (Some (rp_id g)) = Some None \<and>
       isElevatedPermission db userId documentId DocRead (Some (rp_id g)) = Some True"
    if s: "filter (spec_subjectMatches db userId user) rs = [g]" for g
  proof -
    have "\<not> (\<exists>h \<in> set rs. rp_id h \<noteq> rp_id g \<and> spec_subjectMatches db userId user h)"
    proof
      assume "\<exists>h \<in> set rs. rp_id h \<noteq> rp_id g \<and> spec_subjectMatches db userId user h"
      then obtain h where h: "h \<in> set rs" "rp_id h \<noteq> rp_id g" "spec_subjectMatches db userId user h"
        by blast
      then have "h \<in> set (filter (spec_subjectMatches db userId user) rs)" by simp
      with s h(2) show False by simp
    qed
    with general [of "rp_id g"]
    have 1: "getDocumentPermission db userId documentId (Some (rp_id g)) = Some None" by auto
    then have "isElevatedPermission db userId documentId DocRead (Some (rp_id g)) = Some True"
      by (simp add: isElevatedPermission_def)
    with 1 show ?thesis by simp
  qed
  show ?thesis
  proof (rule exI [of _ rs], intro conjI)
    show "resolveForDocument db (user_teamId user) documentId (doc_collectionId document) = Some rs"
      by (rule rs)
  next
    show "\<forall>gid. \<exists>r.
       getDocumentPermission db userId documentId (Some gid) = Some r \<and>
       getDocumentPermission
         (db \<lparr> db_permissions := filter (\<lambda>p. perm_id p \<noteq> gid) (db_permissions db) \<rparr>)
         userId documentId None = Some r \<and>
       (r = None \<longleftrightarrow>
          \<not> (\<exists>g \<in> set rs. rp_id g \<noteq> gid \<and> spec_subjectMatches db userId user g)) \<and>
       (\<forall>l. r = Some l \<longrightarrow>
          (\<exists>g \<in> set rs. rp_id g \<noteq> gid \<and> spec_subjectMatches db userId user g \<and>
             spec_levelRank (rp_permission g) = spec_rank (Some l)) \<and>
          (\<forall>g \<in> set rs. rp_id g \<noteq> gid \<and> spec_subjectMatches db userId user g \<longrightarrow>
             spec_levelRank (rp_permission g) \<le> spec_rank (Some l)))"
      by (rule allI) (rule general)
  next
    show "\<forall>g. filter (spec_subjectMatches db userId user) rs = [g] \<longrightarrow>
       getDocumentPermission db userId documentId (Some (rp_id g)) = Some None \<and>
       isElevatedPermission db userId documentId DocRead (Some (rp_id g)) = Some True"
      by (intro allI impI) (rule sole)
  qed
qed



text \<open>
  Claim C7. A role grant matches exactly when its role is the role the user has now, in
  the matching helper of the policies and in the subject filter of the calculator. After
  the role of the user is changed in the users table, and nothing else,
  \<open>getDocumentPermission\<close> ranks the same resolved grants, matched against the new role.
\<close>

theorem role_matched_live:
  "(perm_subjectType grant = SubjectRole \<longrightarrow>
      matchesSubject grant (user \<lparr> user_role := r \<rparr>) = (perm_subjectRole grant = Some r)) \<and>
   (rp_subjectType p = SubjectRole \<longrightarrow>
      subjectFilter userId (user \<lparr> user_role := r \<rparr>) groupIds p = (rp_subjectRole p = Some r)) \<and>
   (db_documents db documentId = Some document \<and> doc_id document = documentId \<and>
    db_users db userId = Some user \<and>
    resolveForDocument db (user_teamId user) documentId (doc_collectionId document) = Some rs \<longrightarrow>
      getDocumentPermission
        (db \<lparr> db_users := (db_users db)(userId \<mapsto> user \<lparr> user_role := r \<rparr>) \<rparr>)
        userId documentId skip =
      Some (first (orderBy_desc
        (map levelOf
          (filter (subjectFilter userId (user \<lparr> user_role := r \<rparr>) (set (db_groupsByMember db userId)))
            (filter (\<lambda>p. Some (rp_id p) \<noteq> skip) rs)))
        DocumentPermissionPriority)))"
proof (intro conjI impI)
  assume "perm_subjectType grant = SubjectRole"
  then show "matchesSubject grant (user \<lparr> user_role := r \<rparr>) = (perm_subjectRole grant = Some r)"
    by (simp add: matchesSubject_def)
next
  assume "rp_subjectType p = SubjectRole"
  then show "subjectFilter userId (user \<lparr> user_role := r \<rparr>) groupIds p = (rp_subjectRole p = Some r)"
    by (simp add: subjectFilter_def)
next
  let ?db = "db \<lparr> db_users := (db_users db)(userId \<mapsto> user \<lparr> user_role := r \<rparr>) \<rparr>"
  assume a: "db_documents db documentId = Some document \<and> doc_id document = documentId \<and>
    db_users db userId = Some user \<and>
    resolveForDocument db (user_teamId user) documentId (doc_collectionId document) = Some rs"
  have "resolveForDocument ?db t d c = resolveForDocument db t d c" for t d c
    by (simp add: resolveForDocument_def findAncestorDocumentIds_def)
  with a have res: "resolveForDocument ?db (user_teamId (user \<lparr> user_role := r \<rparr>)) documentId
      (doc_collectionId document) = Some rs"
    by simp
  have doc: "db_documents ?db documentId = Some document" using a by simp
  have usr: "db_users ?db userId = Some (user \<lparr> user_role := r \<rparr>)" by simp
  from a have did: "doc_id document = documentId" by simp
  from getDocumentPermission_unfold [OF doc did usr res, of skip]
  show "getDocumentPermission ?db userId documentId skip =
      Some (first (orderBy_desc
        (map levelOf
          (filter (subjectFilter userId (user \<lparr> user_role := r \<rparr>) (set (db_groupsByMember db userId)))
            (filter (\<lambda>p. Some (rp_id p) \<noteq> skip) rs)))
        DocumentPermissionPriority))"
    by simp
qed


lemma ex_ancestry_d1: "ancestry ex_documents ''d1'' = Some [''d1'']"
  by (simp add: ancestry.simps ex_documents_def mkDocument_def)

lemma ex_resolve_d3_rows:
  "resolveForDocument ex_db ''t1'' ''d3'' (Some ''c1'') =
     Some [toResolved Inherited (ex_permissions ! 1), toResolved Inherited (ex_permissions ! 3),
           toResolved Direct (ex_permissions ! 2), toResolved Inherited (ex_permissions ! 0)]"
  by (simp add: resolveForDocument_def findAncestorDocumentIds_def ex_ancestry_d3 ex_db_def
      findAll_def ex_permissions_def mkPermission_def DEFAULT_ORDER_def)

lemma ex_resolve_d1_rows:
  "resolveForDocument ex_db ''t1'' ''d1'' (Some ''c1'') =
     Some [toResolved Inherited (ex_permissions ! 1), toResolved Direct (ex_permissions ! 3),
           toResolved Inherited (ex_permissions ! 0)]"
  by (simp add: resolveForDocument_def findAncestorDocumentIds_def ex_ancestry_d1 ex_db_def
      findAll_def ex_permissions_def mkPermission_def DEFAULT_ORDER_def)

lemma ex_doc_d3: "db_documents ex_db ''d3'' = Some (mkDocument ''d3'' (Some ''c1'') (Some ''d2''))"
  by (simp add: ex_db_def ex_documents_def)

lemma ex_doc_d1: "db_documents ex_db ''d1'' = Some (mkDocument ''d1'' (Some ''c1'') None)"
  by (simp add: ex_db_def ex_documents_def)

lemma ex_user_u1: "db_users ex_db ''u1'' = Some (mkUser ''u1'' ''t1'' ''editor'')"
  by (simp add: ex_db_def)

lemma ex_user_u2: "db_users ex_db ''u2'' = Some (mkUser ''u2'' ''t1'' ''viewer'')"
  by (simp add: ex_db_def)

lemma ex_user_u3: "db_users ex_db ''u3'' = Some (mkUser ''u3'' ''t1'' ''viewer'')"
  by (simp add: ex_db_def)

lemma ex_groups_nonempty: "[] \<notin> set (db_groupsByMember ex_db u)"
  by (simp add: ex_db_def)

theorem getDocumentPermission_max_witness:
  "getDocumentPermission ex_db ''u2'' ''d3'' None = Some (Some DocManage)"
proof -
  have e: "db_sequelize ex_db \<longrightarrow> chain_ends (db_documents ex_db) ''d3''"
    using ex_chain_d3 by (simp add: ex_db_def)
  have did: "doc_id (mkDocument ''d3'' (Some ''c1'') (Some ''d2'')) = ''d3''"
    by (simp add: mkDocument_def)
  from getDocumentPermission_max [OF ex_doc_d3 did ex_user_u2 e ex_groups_nonempty]
  obtain rs r where
    rs: "resolveForDocument ex_db (user_teamId (mkUser ''u2'' ''t1'' ''viewer'')) ''d3''
           (doc_collectionId (mkDocument ''d3'' (Some ''c1'') (Some ''d2''))) = Some rs"
    and r: "getDocumentPermission ex_db ''u2'' ''d3'' None = Some r"
    and none: "(r = None) = (\<not> (\<exists>g \<in> set rs. spec_subjectMatches ex_db ''u2'' (mkUser ''u2'' ''t1'' ''viewer'') g))"
    and top: "\<forall>l. r = Some l \<longrightarrow>
       (\<forall>g \<in> set rs. spec_subjectMatches ex_db ''u2'' (mkUser ''u2'' ''t1'' ''viewer'') g \<longrightarrow>
          spec_levelRank (rp_permission g) \<le> spec_rank (Some l))"
    by blast
  from rs ex_resolve_d3_rows have g4: "toResolved Inherited (ex_permissions ! 3) \<in> set rs"
    by (auto simp: mkUser_def mkDocument_def)
  have m: "spec_subjectMatches ex_db ''u2'' (mkUser ''u2'' ''t1'' ''viewer'')
      (toResolved Inherited (ex_permissions ! 3))"
    by (simp add: spec_subjectMatches_def toResolved_def ex_permissions_def mkPermission_def ex_db_def)
  have lv: "spec_levelRank (rp_permission (toResolved Inherited (ex_permissions ! 3))) = 2"
    by (simp add: toResolved_def ex_permissions_def mkPermission_def)
  from none g4 m obtain l where l: "r = Some l" by (cases r) auto
  with top g4 m lv have "2 \<le> spec_rank (Some l)" by fastforce
  then have "l = DocManage" by (cases l) auto
  with r l show ?thesis by simp
qed

theorem isElevatedPermission_rank_witness:
  "getDocumentPermission ex_db ''u1'' ''d1'' (Some ''g2'') = Some None \<and>
   isElevatedPermission ex_db ''u1'' ''d1'' DocRead (Some ''g2'') = Some True \<and>
   getDocumentPermission ex_db ''u1'' ''d1'' None = Some (Some DocEdit) \<and>
   isElevatedPermission ex_db ''u1'' ''d1'' DocEdit None = Some False \<and>
   isElevatedPermission ex_db ''u1'' ''d1'' DocManage None = Some True"
proof -
  have did: "doc_id (mkDocument ''d1'' (Some ''c1'') None) = ''d1''"
    by (simp add: mkDocument_def)
  have res: "resolveForDocument ex_db (user_teamId (mkUser ''u1'' ''t1'' ''editor'')) ''d1''
      (doc_collectionId (mkDocument ''d1'' (Some ''c1'') None)) =
     Some [toResolved Inherited (ex_permissions ! 1), toResolved Direct (ex_permissions ! 3),
           toResolved Inherited (ex_permissions ! 0)]"
    using ex_resolve_d1_rows by (simp add: mkUser_def mkDocument_def)
  have 1: "getDocumentPermission ex_db ''u1'' ''d1'' (Some ''g2'') = Some None"
    unfolding getDocumentPermission_unfold [OF ex_doc_d1 did ex_user_u1 res]
    by (simp add: toResolved_def ex_permissions_def mkPermission_def subjectFilter_def
        mkUser_def ex_db_def orderBy_desc_def)
  have 2: "getDocumentPermission ex_db ''u1'' ''d1'' None = Some (Some DocEdit)"
    unfolding getDocumentPermission_unfold [OF ex_doc_d1 did ex_user_u1 res]
    by (simp add: toResolved_def ex_permissions_def mkPermission_def subjectFilter_def
        mkUser_def ex_db_def orderBy_desc_def levelOf_def)
  from isElevatedPermission_rank [of ex_db "''u1''" "''d1''" DocRead "Some ''g2''"]
    isElevatedPermission_rank [of ex_db "''u1''" "''d1''" DocEdit None]
    isElevatedPermission_rank [of ex_db "''u1''" "''d1''" DocManage None] 1 2
  show ?thesis by simp
qed

lemma ex_chain_d1: "chain_ends ex_documents ''d1''"
  by (rule chain_ends.root [where d = "mkDocument ''d1'' (Some ''c1'') None"])
     (simp_all add: ex_documents_def mkDocument_def)

theorem skipMembershipId_removes_grant_witness:
  "getDocumentPermission ex_db ''u1'' ''d3'' (Some ''g2'') = Some (Some DocRead) \<and>
   getDocumentPermission ex_db ''u1'' ''d1'' (Some ''g2'') = Some None \<and>
   isElevatedPermission ex_db ''u1'' ''d1'' DocRead (Some ''g2'') = Some True"
proof -
  let ?u = "mkUser ''u1'' ''t1'' ''editor''"
  have a: "getDocumentPermission ex_db ''u1'' ''d3'' (Some ''g2'') = Some (Some DocRead)"
  proof -
    let ?rows = "[toResolved Inherited (ex_permissions ! 1), toResolved Inherited (ex_permissions ! 3),
           toResolved Direct (ex_permissions ! 2), toResolved Inherited (ex_permissions ! 0)]"
    have e: "db_sequelize ex_db \<longrightarrow> chain_ends (db_documents ex_db) ''d3''"
      using ex_chain_d3 by (simp add: ex_db_def)
    have did: "doc_id (mkDocument ''d3'' (Some ''c1'') (Some ''d2'')) = ''d3''"
      by (simp add: mkDocument_def)
    from skipMembershipId_removes_grant [OF ex_doc_d3 did ex_user_u1 e ex_groups_nonempty]
    obtain rs where
      rs: "resolveForDocument ex_db (user_teamId ?u) ''d3''
             (doc_collectionId (mkDocument ''d3'' (Some ''c1'') (Some ''d2''))) = Some rs"
      and g: "\<forall>gid. \<exists>r.
       getDocumentPermission ex_db ''u1'' ''d3'' (Some gid) = Some r \<and>
       getDocumentPermission
         (ex_db \<lparr> db_permissions := filter (\<lambda>p. perm_id p \<noteq> gid) (db_permissions ex_db) \<rparr>)
         ''u1'' ''d3'' None = Some r \<and>
       (r = None \<longleftrightarrow>
          \<not> (\<exists>g \<in> set rs. rp_id g \<noteq> gid \<and> spec_subjectMatches ex_db ''u1'' ?u g)) \<and>
       (\<forall>l. r = Some l \<longrightarrow>
          (\<exists>g \<in> set rs. rp_id g \<noteq> gid \<and> spec_subjectMatches ex_db ''u1'' ?u g \<and>
             spec_levelRank (rp_permission g) = spec_rank (Some l)) \<and>
          (\<forall>g \<in> set rs. rp_id g \<noteq> gid \<and> spec_subjectMatches ex_db ''u1'' ?u g \<longrightarrow>
             spec_levelRank (rp_permission g) \<le> spec_rank (Some l)))"
      by (elim exE conjE) (rule that)
    from rs ex_resolve_d3_rows have rows: "rs = ?rows"
      by (simp add: mkUser_def mkDocument_def)
    from g [rule_format, of "''g2''"] obtain r where
      r: "getDocumentPermission ex_db ''u1'' ''d3'' (Some ''g2'') = Some r"
      and none: "r = None \<longleftrightarrow>
            \<not> (\<exists>g \<in> set rs. rp_id g \<noteq> ''g2'' \<and> spec_subjectMatches ex_db ''u1'' ?u g)"
      and some: "\<forall>l. r = Some l \<longrightarrow>
          (\<exists>g \<in> set rs. rp_id g \<noteq> ''g2'' \<and> spec_subjectMatches ex_db ''u1'' ?u g \<and>
             spec_levelRank (rp_permission g) = spec_rank (Some l)) \<and>
          (\<forall>g \<in> set rs. rp_id g \<noteq> ''g2'' \<and> spec_subjectMatches ex_db ''u1'' ?u g \<longrightarrow>
             spec_levelRank (rp_permission g) \<le> spec_rank (Some l))"
      by (elim exE conjE) (rule that)
    have left: "\<exists>g \<in> set rs. rp_id g \<noteq> ''g2'' \<and> spec_subjectMatches ex_db ''u1'' ?u g"
      unfolding rows
      by (simp add: spec_subjectMatches_def toResolved_def ex_permissions_def mkPermission_def
          mkUser_def ex_db_def)
    have low: "\<forall>g \<in> set rs. rp_id g \<noteq> ''g2'' \<and> spec_subjectMatches ex_db ''u1'' ?u g \<longrightarrow>
        spec_levelRank (rp_permission g) = 0"
      unfolding rows
      by (simp add: spec_subjectMatches_def toResolved_def ex_permissions_def mkPermission_def
          mkUser_def ex_db_def)
    from none left obtain l where l: "r = Some l" by (cases r) simp_all
    from some [rule_format, OF l] obtain g where
      "g \<in> set rs" "rp_id g \<noteq> ''g2'' \<and> spec_subjectMatches ex_db ''u1'' ?u g"
      "spec_levelRank (rp_permission g) = spec_rank (Some l)"
      by (elim conjE bexE) (rule that, simp_all)
    with low [rule_format] have "spec_rank (Some l) = 0" by metis
    then have "l = DocRead" by (cases l) auto
    with r l show ?thesis by simp
  qed
  have b: "getDocumentPermission ex_db ''u1'' ''d1'' (Some ''g2'') = Some None \<and>
      isElevatedPermission ex_db ''u1'' ''d1'' DocRead (Some ''g2'') = Some True"
  proof -
    let ?rows = "[toResolved Inherited (ex_permissions ! 1), toResolved Direct (ex_permissions ! 3),
           toResolved Inherited (ex_permissions ! 0)]"
    have e: "db_sequelize ex_db \<longrightarrow> chain_ends (db_documents ex_db) ''d1''"
      using ex_chain_d1 by (simp add: ex_db_def)
    have did: "doc_id (mkDocument ''d1'' (Some ''c1'') None) = ''d1''"
      by (simp add: mkDocument_def)
    from skipMembershipId_removes_grant [OF ex_doc_d1 did ex_user_u1 e ex_groups_nonempty]
    obtain rs where
      rs: "resolveForDocument ex_db (user_teamId ?u) ''d1''
             (doc_collectionId (mkDocument ''d1'' (Some ''c1'') None)) = Some rs"
      and s: "\<forall>g. filter (spec_subjectMatches ex_db ''u1'' ?u) rs = [g] \<longrightarrow>
         getDocumentPermission ex_db ''u1'' ''d1'' (Some (rp_id g)) = Some None \<and>
         isElevatedPermission ex_db ''u1'' ''d1'' DocRead (Some (rp_id g)) = Some True"
      by (elim exE conjE) (rule that)
    from rs ex_resolve_d1_rows have rows: "rs = ?rows"
      by (simp add: mkUser_def mkDocument_def)
    have sole: "filter (spec_subjectMatches ex_db ''u1'' ?u) rs = [toResolved Inherited (ex_permissions ! 1)]"
      unfolding rows
      by (simp add: spec_subjectMatches_def toResolved_def ex_permissions_def mkPermission_def
          mkUser_def ex_db_def)
    have i: "rp_id (toResolved Inherited (ex_permissions ! 1)) = ''g2''"
      by (simp add: toResolved_def ex_permissions_def mkPermission_def)
    from s [rule_format, OF sole] show ?thesis unfolding i .
  qed
  from a b show ?thesis by simp
qed

theorem role_matched_live_witness:
  "matchesSubject (ex_permissions ! 0) (mkUser ''u3'' ''t1'' ''viewer'') \<and>
   \<not> matchesSubject (ex_permissions ! 0) ((mkUser ''u3'' ''t1'' ''viewer'') \<lparr> user_role := ''editor'' \<rparr>) \<and>
   getDocumentPermission ex_db ''u3'' ''d1'' None = Some (Some DocRead) \<and>
   getDocumentPermission
     (ex_db \<lparr> db_users := (db_users ex_db)(''u3'' \<mapsto> (mkUser ''u3'' ''t1'' ''viewer'') \<lparr> user_role := ''editor'' \<rparr>) \<rparr>)
     ''u3'' ''d1'' None = Some None"
proof -
  have did: "doc_id (mkDocument ''d1'' (Some ''c1'') None) = ''d1''"
    by (simp add: mkDocument_def)
  have res: "resolveForDocument ex_db (user_teamId (mkUser ''u3'' ''t1'' ''viewer'')) ''d1''
      (doc_collectionId (mkDocument ''d1'' (Some ''c1'') None)) =
     Some [toResolved Inherited (ex_permissions ! 1), toResolved Direct (ex_permissions ! 3),
           toResolved Inherited (ex_permissions ! 0)]"
    using ex_resolve_d1_rows by (simp add: mkUser_def mkDocument_def)
  have st: "perm_subjectType (ex_permissions ! 0) = SubjectRole"
    and sr: "perm_subjectRole (ex_permissions ! 0) = Some ''viewer''"
    by (simp_all add: ex_permissions_def mkPermission_def)
  have v: "(mkUser ''u3'' ''t1'' ''viewer'') \<lparr> user_role := ''viewer'' \<rparr> = mkUser ''u3'' ''t1'' ''viewer''"
    by (simp add: mkUser_def)
  note t = role_matched_live [where grant = "ex_permissions ! 0"
      and user = "mkUser ''u3'' ''t1'' ''viewer''" and userId = "''u3''" and db = ex_db
      and documentId = "''d1''" and document = "mkDocument ''d1'' (Some ''c1'') None"
      and skip = None]
  have 1: "matchesSubject (ex_permissions ! 0) (mkUser ''u3'' ''t1'' ''viewer'')"
    using t [where r = "''viewer''"] st sr v by simp
  have 2: "\<not> matchesSubject (ex_permissions ! 0) ((mkUser ''u3'' ''t1'' ''viewer'') \<lparr> user_role := ''editor'' \<rparr>)"
    using t [where r = "''editor''"] st sr by simp
  have u: "ex_db \<lparr> db_users := (db_users ex_db)(''u3'' \<mapsto> (mkUser ''u3'' ''t1'' ''viewer'') \<lparr> user_role := ''viewer'' \<rparr>) \<rparr> = ex_db"
    unfolding v using ex_user_u3 by (simp add: fun_upd_idem)
  have 3: "getDocumentPermission ex_db ''u3'' ''d1'' None = Some (Some DocRead)"
    using t [where r = "''viewer''"] ex_doc_d1 did ex_user_u3 res unfolding u
    by (simp add: toResolved_def ex_permissions_def mkPermission_def subjectFilter_def
        mkUser_def ex_db_def orderBy_desc_def levelOf_def)
  have 4: "getDocumentPermission
     (ex_db \<lparr> db_users := (db_users ex_db)(''u3'' \<mapsto> (mkUser ''u3'' ''t1'' ''viewer'') \<lparr> user_role := ''editor'' \<rparr>) \<rparr>)
     ''u3'' ''d1'' None = Some None"
    using t [where r = "''editor''"] ex_doc_d1 did ex_user_u3 res
    by (simp add: toResolved_def ex_permissions_def mkPermission_def subjectFilter_def
        mkUser_def ex_db_def orderBy_desc_def levelOf_def)
  from 1 2 3 4 show ?thesis by blast
qed




section \<open>The owner rule of the matching helper\<close>

lemma push_loop:
  "foldl (\<lambda>grantIds grant.
       if \<not> M grant then grantIds
       else if A grant then grantIds @ [perm_id grant]
       else grantIds) acc grants =
   acc @ map perm_id (filter (\<lambda>grant. M grant \<and> A grant) grants)"
  by (induction grants arbitrary: acc) auto

text \<open>
  Claim C8. For a collection whose owner id is the (non-empty) id of the user, the helper
  returns the marker \<^verbatim>\<open>owner:<collection id>\<close>, whatever grants the collection has and
  whatever levels are asked for, the empty list of levels included. Only then: for a user
  who is not the owner it returns the ids of the grants that match the user at one of the
  levels, or \<^verbatim>\<open>false\<close> when there is none. A document carries no owner id, so a document
  never meets the condition; the helper for documents returns the ids of the matching
  grants, or \<^verbatim>\<open>false\<close>.
\<close>

theorem includesPermission_collection_owner:
  "(coll_ownerId c = Some (user_id user) \<and> user_id user \<noteq> [] \<longrightarrow>
      includesPermission_collection (Some c) user permissions = Some [''owner:'' @ coll_id c]) \<and>
   (coll_ownerId c \<noteq> Some (user_id user) \<longrightarrow>
      includesPermission_collection (Some c) user permissions =
        (let grantIds = map perm_id (filter (\<lambda>grant. matchesSubject grant user \<and>
               levelToCollectionPermission (perm_permission grant) \<in> set permissions)
               (case coll_permissionGrants c of None \<Rightarrow> [] | Some gs \<Rightarrow> gs))
         in if grantIds = [] then None else Some grantIds)) \<and>
   includesPermission_document (Some d) user levels =
     (let grantIds = map perm_id (filter (\<lambda>grant. matchesSubject grant user \<and>
            levelToDocumentPermission (perm_permission grant) \<in> set levels)
            (case doc_permissionGrants d of None \<Rightarrow> [] | Some gs \<Rightarrow> gs))
      in if grantIds = [] then None else Some grantIds)"
proof (intro conjI impI)
  assume "coll_ownerId c = Some (user_id user) \<and> user_id user \<noteq> []"
  then show "includesPermission_collection (Some c) user permissions = Some [''owner:'' @ coll_id c]"
    by (simp add: includesPermission_collection_def)
next
  assume "coll_ownerId c \<noteq> Some (user_id user)"
  then show "includesPermission_collection (Some c) user permissions =
        (let grantIds = map perm_id (filter (\<lambda>grant. matchesSubject grant user \<and>
               levelToCollectionPermission (perm_permission grant) \<in> set permissions)
               (case coll_permissionGrants c of None \<Rightarrow> [] | Some gs \<Rightarrow> gs))
         in if grantIds = [] then None else Some grantIds)"
    by (simp add: includesPermission_collection_def Let_def push_loop)
next
  show "includesPermission_document (Some d) user levels =
     (let grantIds = map perm_id (filter (\<lambda>grant. matchesSubject grant user \<and>
            levelToDocumentPermission (perm_permission grant) \<in> set levels)
            (case doc_permissionGrants d of None \<Rightarrow> [] | Some gs \<Rightarrow> gs))
      in if grantIds = [] then None else Some grantIds)"
    by (simp add: includesPermission_document_def Let_def push_loop)
qed

theorem includesPermission_collection_owner_witness:
  "includesPermission_collection
     (Some \<lparr> coll_id = ''c1'', coll_ownerId = Some ''u1'', coll_permissionGrants = None \<rparr>)
     (mkUser ''u1'' ''t1'' ''viewer'') [] = Some [''owner:c1''] \<and>
   includesPermission_collection
     (Some \<lparr> coll_id = ''c1'', coll_ownerId = Some ''u1'',
             coll_permissionGrants = Some [ex_permissions ! 1, ex_permissions ! 8] \<rparr>)
     (mkUser ''u2'' ''t1'' ''viewer'') [CollRead, CollEdit, CollManage] = Some [''g9''] \<and>
   includesPermission_collection
     (Some \<lparr> coll_id = ''c1'', coll_ownerId = Some ''u1'',
             coll_permissionGrants = Some [ex_permissions ! 1, ex_permissions ! 8] \<rparr>)
     (mkUser ''u2'' ''t1'' ''viewer'') [CollManage] = None"
proof -
  note t = includesPermission_collection_owner
  have 1: "includesPermission_collection
     (Some \<lparr> coll_id = ''c1'', coll_ownerId = Some ''u1'', coll_permissionGrants = None \<rparr>)
     (mkUser ''u1'' ''t1'' ''viewer'') [] = Some [''owner:c1'']"
    using t [of "\<lparr> coll_id = ''c1'', coll_ownerId = Some ''u1'', coll_permissionGrants = None \<rparr>"
        "mkUser ''u1'' ''t1'' ''viewer''" "[]"]
    by (simp add: mkUser_def)
  have 2: "includesPermission_collection
     (Some \<lparr> coll_id = ''c1'', coll_ownerId = Some ''u1'',
             coll_permissionGrants = Some [ex_permissions ! 1, ex_permissions ! 8] \<rparr>)
     (mkUser ''u2'' ''t1'' ''viewer'') [CollRead, CollEdit, CollManage] = Some [''g9'']"
    using t [of "\<lparr> coll_id = ''c1'', coll_ownerId = Some ''u1'',
             coll_permissionGrants = Some [ex_permissions ! 1, ex_permissions ! 8] \<rparr>"
        "mkUser ''u2'' ''t1'' ''viewer''" "[CollRead, CollEdit, CollManage]"]
    by (simp add: mkUser_def ex_permissions_def mkPermission_def matchesSubject_def
        levelToCollectionPermission_def)
  have 3: "includesPermission_collection
     (Some \<lparr> coll_id = ''c1'', coll_ownerId = Some ''u1'',
             coll_permissionGrants = Some [ex_permissions ! 1, ex_permissions ! 8] \<rparr>)
     (mkUser ''u2'' ''t1'' ''viewer'') [CollManage] = None"
    using t [of "\<lparr> coll_id = ''c1'', coll_ownerId = Some ''u1'',
             coll_permissionGrants = Some [ex_permissions ! 1, ex_permissions ! 8] \<rparr>"
        "mkUser ''u2'' ''t1'' ''viewer''" "[CollManage]"]
    by (simp add: mkUser_def ex_permissions_def mkPermission_def matchesSubject_def
        levelToCollectionPermission_def)
  from 1 2 3 show ?thesis by blast
qed

section \<open>The routes that create grants\<close>


lemma indexKey_deleted [simp]: "indexKey (p \<lparr> perm_deletedAt := d \<rparr>) = indexKey p"
  by (simp add: indexKey_def)

lemma active_after_destroy:
  "filter (\<lambda>p. perm_deletedAt p = None) (destroy wh now rows) =
   filter (\<lambda>p. \<not> wh p) (filter (\<lambda>p. perm_deletedAt p = None) rows)"
  by (induction rows) (auto simp: destroy_def)

lemma unique_active_destroy:
  "unique_active rows \<Longrightarrow> unique_active (destroy wh now rows)"
  unfolding unique_active_def active_after_destroy
  by (rule distinct_map_filter)

lemma destroy_changes:
  "list_all2 (\<lambda>q q'. q' = q \<or>
     (perm_deletedAt q = None \<and> q' = q \<lparr> perm_deletedAt := Some now \<rparr>)) rows (destroy wh now rows)"
  by (induction rows) (auto simp: destroy_def)

lemma destroy_covers:
  assumes "\<And>q. q \<in> set rows \<Longrightarrow> indexKey q = k \<Longrightarrow> wh q"
  shows "list_all2 (\<lambda>q q'. perm_deletedAt q = None \<and> indexKey q = k \<longrightarrow>
     perm_deletedAt q' = Some now) rows (destroy wh now rows)"
  using assms by (induction rows) (auto simp: destroy_def)

lemma replace_grant:
  assumes inv: "unique_active rows"
    and act: "perm_deletedAt g = None"
    and cover: "\<forall>q \<in> set rows. indexKey q = indexKey g \<longrightarrow> wh q"
  shows "create g (destroy wh now rows) = Inr (destroy wh now rows @ [g])"
    and "unique_active (destroy wh now rows @ [g])"
proof -
  have no: "indexKey g \<notin> indexKey ` set (filter (\<lambda>p. perm_deletedAt p = None) (destroy wh now rows))"
    unfolding active_after_destroy using cover by auto
  then have "\<not> list_ex (\<lambda>q. perm_deletedAt q = None \<and> indexKey q = indexKey g) (destroy wh now rows)"
    by (fastforce simp: list_ex_iff image_iff)
  then show "create g (destroy wh now rows) = Inr (destroy wh now rows @ [g])"
    by (simp add: create_def)
  from unique_active_destroy [OF inv, of wh now] no act
  show "unique_active (destroy wh now rows @ [g])"
    by (simp add: unique_active_def)
qed


lemma same_key_same_target:
  assumes "subject_consistent q" and "resource_consistent q"
    and "indexKey q = indexKey g"
    and "perm_subjectId g = Some s" and "perm_resourceId g = Some r"
    and "perm_subjectType g \<noteq> SubjectRole" and "perm_resourceType g \<noteq> ResWorkspace"
  shows "perm_teamId q = perm_teamId g \<and> perm_subjectType q = perm_subjectType g \<and>
    perm_subjectId q = Some s \<and> perm_resourceType q = perm_resourceType g \<and>
    perm_resourceId q = Some r"
proof -
  from assms(3) have k: "perm_teamId q = perm_teamId g" "perm_subjectType q = perm_subjectType g"
      "COALESCE (perm_subjectId q) ZERO_UUID = COALESCE (perm_subjectId g) ZERO_UUID"
      "perm_resourceType q = perm_resourceType g"
      "COALESCE (perm_resourceId q) ZERO_UUID = COALESCE (perm_resourceId g) ZERO_UUID"
    by (simp_all add: indexKey_def)
  from assms(1) k(2) assms(6) obtain s' where s': "perm_subjectId q = Some s'"
    by (auto simp: subject_consistent_def)
  from assms(2) k(4) assms(7) obtain r' where r': "perm_resourceId q = Some r'"
    by (auto simp: resource_consistent_def)
  from k s' r' assms(4,5) show ?thesis by simp
qed

lemma destroyThenCreate_outcome:
  assumes inv: "unique_active rows"
    and act: "perm_deletedAt g = None"
    and cover: "\<forall>q \<in> set rows. indexKey q = indexKey g \<longrightarrow> wh q"
  shows "unique_active (snd (destroyThenCreate wh g now rows)) \<and>
    spec_outcome now rows (destroyThenCreate wh g now rows)"
proof -
  from replace_grant [OF inv act cover, of now]
  have c: "create g (destroy wh now rows) = Inr (destroy wh now rows @ [g])"
    and u: "unique_active (destroy wh now rows @ [g])" by blast+
  from c have o: "destroyThenCreate wh g now rows = (Inr g, destroy wh now rows @ [g])"
    by (simp add: destroyThenCreate_def)
  have "spec_outcome now rows (Inr g, destroy wh now rows @ [g])"
    unfolding spec_outcome_def
    using act destroy_changes [of now rows wh] destroy_covers [of rows "indexKey g" wh now] cover
    by auto
  with u o show ?thesis by simp
qed

lemma error_outcome:
  assumes "unique_active rows" and "e \<noteq> UniqueConstraintError"
  shows "unique_active (snd (Inl e, rows)) \<and> spec_outcome now rows (Inl e, rows)"
  using assms by (simp add: spec_outcome_def)

lemma target_outcome:
  assumes inv: "unique_active rows"
    and cons: "\<forall>p \<in> set rows. subject_consistent p \<and> resource_consistent p"
    and st: "st \<noteq> SubjectRole" and rt: "rt \<noteq> ResWorkspace"
  shows "unique_active (snd (destroyThenCreate
      (\<lambda>p. perm_teamId p = team \<and> perm_subjectType p = st \<and> perm_subjectId p = Some s \<and>
           perm_resourceType p = rt \<and> perm_resourceId p = Some r)
      \<lparr> perm_id = n, perm_teamId = team, perm_subjectType = st, perm_subjectId = Some s,
        perm_subjectRole = None, perm_resourceType = rt, perm_resourceId = Some r,
        perm_permission = lvl, perm_inheritMode = mode, perm_grantedById = granter,
        perm_createdAt = now, perm_deletedAt = None \<rparr> now rows)) \<and>
    spec_outcome now rows (destroyThenCreate
      (\<lambda>p. perm_teamId p = team \<and> perm_subjectType p = st \<and> perm_subjectId p = Some s \<and>
           perm_resourceType p = rt \<and> perm_resourceId p = Some r)
      \<lparr> perm_id = n, perm_teamId = team, perm_subjectType = st, perm_subjectId = Some s,
        perm_subjectRole = None, perm_resourceType = rt, perm_resourceId = Some r,
        perm_permission = lvl, perm_inheritMode = mode, perm_grantedById = granter,
        perm_createdAt = now, perm_deletedAt = None \<rparr> now rows)"
proof (rule destroyThenCreate_outcome [OF inv], goal_cases)
  case 1
  show "perm_deletedAt \<lparr> perm_id = n, perm_teamId = team, perm_subjectType = st, perm_subjectId = Some s,
        perm_subjectRole = None, perm_resourceType = rt, perm_resourceId = Some r,
        perm_permission = lvl, perm_inheritMode = mode, perm_grantedById = granter,
        perm_createdAt = now, perm_deletedAt = None \<rparr> = None" by simp
next
  case 2
  show ?case
  proof (intro ballI impI)
  fix q
  assume q: "q \<in> set rows" and k: "indexKey q = indexKey \<lparr> perm_id = n, perm_teamId = team, perm_subjectType = st, perm_subjectId = Some s,
        perm_subjectRole = None, perm_resourceType = rt, perm_resourceId = Some r,
        perm_permission = lvl, perm_inheritMode = mode, perm_grantedById = granter,
        perm_createdAt = now, perm_deletedAt = None \<rparr>"
  from cons q have c: "subject_consistent q" "resource_consistent q" by blast+
  from same_key_same_target [OF c k, of s r] st rt
  show "perm_teamId q = team \<and> perm_subjectType q = st \<and> perm_subjectId q = Some s \<and>
           perm_resourceType q = rt \<and> perm_resourceId q = Some r"
    by simp
  qed
qed

lemma documents_add_user_outcome:
  assumes inv: "unique_active (db_permissions db)"
    and cons: "\<forall>p \<in> set (db_permissions db). subject_consistent p \<and> resource_consistent p"
  shows "unique_active (snd (documents_add_user pol req db i userId permission)) \<and>
    spec_outcome (req_now req) (db_permissions db) (documents_add_user pol req db i userId permission)"
  unfolding documents_add_user_def Let_def
  using inv error_outcome [OF inv, of _ "req_now req"] target_outcome [OF inv cons]
  by (auto split: option.splits)

lemma documents_add_group_outcome:
  assumes inv: "unique_active (db_permissions db)"
    and cons: "\<forall>p \<in> set (db_permissions db). subject_consistent p \<and> resource_consistent p"
  shows "unique_active (snd (documents_add_group pol req db i groupId permission)) \<and>
    spec_outcome (req_now req) (db_permissions db) (documents_add_group pol req db i groupId permission)"
  unfolding documents_add_group_def Let_def
  using inv error_outcome [OF inv, of _ "req_now req"] target_outcome [OF inv cons]
  by (auto split: option.splits)

lemma collections_add_user_outcome:
  assumes inv: "unique_active (db_permissions db)"
    and cons: "\<forall>p \<in> set (db_permissions db). subject_consistent p \<and> resource_consistent p"
  shows "unique_active (snd (collections_add_user pol req db i userId permission)) \<and>
    spec_outcome (req_now req) (db_permissions db) (collections_add_user pol req db i userId permission)"
  unfolding collections_add_user_def Let_def
  using inv error_outcome [OF inv, of _ "req_now req"] target_outcome [OF inv cons]
  by (auto split: option.splits)

lemma collections_add_group_outcome:
  assumes inv: "unique_active (db_permissions db)"
    and cons: "\<forall>p \<in> set (db_permissions db). subject_consistent p \<and> resource_consistent p"
  shows "unique_active (snd (collections_add_group pol req db i groupId permission)) \<and>
    spec_outcome (req_now req) (db_permissions db) (collections_add_group pol req db i groupId permission)"
  unfolding collections_add_group_def Let_def
  using inv error_outcome [OF inv, of _ "req_now req"] target_outcome [OF inv cons]
  by (auto split: option.splits)


lemma create_fresh:
  assumes "unique_active xs" and "perm_deletedAt g = None"
    and "\<forall>q \<in> set xs. perm_deletedAt q = None \<longrightarrow> indexKey q \<noteq> indexKey g"
  shows "create g xs = Inr (xs @ [g]) \<and> unique_active (xs @ [g])"
proof -
  from assms(3) have "\<not> list_ex (\<lambda>q. perm_deletedAt q = None \<and> indexKey q = indexKey g) xs"
    by (auto simp: list_ex_iff)
  moreover from assms(3) have "indexKey g \<notin> indexKey ` set (filter (\<lambda>p. perm_deletedAt p = None) xs)"
    by auto
  ultimately show ?thesis
    using assms(1,2) by (simp add: create_def unique_active_def)
qed

lemma active_in_destroy:
  "q \<in> set (destroy wh now rows) \<Longrightarrow> perm_deletedAt q = None \<Longrightarrow>
   q \<in> set rows \<and> \<not> wh q"
  by (induction rows) (auto simp: destroy_def split: if_splits)

lemma same_key_same_role:
  assumes "subject_consistent q" and "resource_consistent q"
    and "indexKey q = indexKey g"
    and "perm_subjectType g = SubjectRole" and "perm_subjectRole g = Some role"
    and "perm_resourceType g = ResCollection" and "perm_resourceId g = Some r"
  shows "perm_teamId q = perm_teamId g \<and> perm_subjectType q = SubjectRole \<and>
    perm_subjectRole q = Some role \<and> perm_resourceType q = ResCollection \<and>
    perm_resourceId q = Some r"
proof -
  from assms(3) have k: "perm_teamId q = perm_teamId g" "perm_subjectType q = perm_subjectType g"
      "COALESCE (perm_subjectRole q) [] = COALESCE (perm_subjectRole g) []"
      "perm_resourceType q = perm_resourceType g"
      "COALESCE (perm_resourceId q) ZERO_UUID = COALESCE (perm_resourceId g) ZERO_UUID"
    by (simp_all add: indexKey_def)
  from assms(1) k(2) assms(4) obtain role' where s': "perm_subjectRole q = Some role'"
    by (auto simp: subject_consistent_def)
  from assms(2) k(4) assms(6) obtain r' where r': "perm_resourceId q = Some r'"
    by (auto simp: resource_consistent_def)
  from k s' r' assms(4-7) show ?thesis by simp
qed

lemma update_grants_outcome:
  fixes team r now granter
  defines "V \<equiv> \<lambda>p. perm_teamId p = team \<and> perm_subjectType p = SubjectRole \<and>
      perm_subjectRole p = Some ''viewer'' \<and> perm_resourceType p = ResCollection \<and>
      perm_resourceId p = Some r"
    and "E \<equiv> \<lambda>p. perm_teamId p = team \<and> perm_subjectType p = SubjectRole \<and>
      perm_subjectRole p = Some ''editor'' \<and> perm_resourceType p = ResCollection \<and>
      perm_resourceId p = Some r"
    and "G \<equiv> \<lambda>(newId, subjectRole, level).
      \<lparr> perm_id = newId, perm_teamId = team, perm_subjectType = SubjectRole,
        perm_subjectId = None, perm_subjectRole = Some subjectRole,
        perm_resourceType = ResCollection, perm_resourceId = Some r,
        perm_permission = level, perm_inheritMode = InheritChildren,
        perm_grantedById = granter, perm_createdAt = now, perm_deletedAt = None \<rparr>"
  assumes inv: "unique_active rows"
    and cons: "\<forall>p \<in> set rows. subject_consistent p \<and> resource_consistent p"
  shows "\<exists>rows3. bulkCreate [G (n1, ''viewer'', l1), G (n2, ''editor'', l2)]
           (destroy E now (destroy V now rows)) = Inr rows3 \<and> unique_active rows3"
proof -
  let ?rows2 = "destroy E now (destroy V now rows)"
  let ?gv = "G (n1, ''viewer'', l1)"
  let ?ge = "G (n2, ''editor'', l2)"
  have u2: "unique_active ?rows2"
    using inv by (intro unique_active_destroy)
  have old: "q \<in> set rows \<and> \<not> V q \<and> \<not> E q"
    if "q \<in> set ?rows2" "perm_deletedAt q = None" for q
  proof -
    from active_in_destroy [OF that] have e: "q \<in> set (destroy V now rows)" "\<not> E q" by blast+
    from active_in_destroy [OF e(1) that(2)] e(2) show ?thesis by blast
  qed
  have nv: "\<forall>q \<in> set ?rows2. perm_deletedAt q = None \<longrightarrow> indexKey q \<noteq> indexKey ?gv"
  proof (intro ballI impI notI)
    fix q assume q: "q \<in> set ?rows2" "perm_deletedAt q = None" "indexKey q = indexKey ?gv"
    from old [OF q(1,2)] cons have c: "subject_consistent q" "resource_consistent q" "\<not> V q"
      by blast+
    from same_key_same_role [OF c(1,2) q(3), of "''viewer''" r] c(3)
    show False by (simp add: G_def V_def)
  qed
  have ne: "\<forall>q \<in> set ?rows2. perm_deletedAt q = None \<longrightarrow> indexKey q \<noteq> indexKey ?ge"
  proof (intro ballI impI notI)
    fix q assume q: "q \<in> set ?rows2" "perm_deletedAt q = None" "indexKey q = indexKey ?ge"
    from old [OF q(1,2)] cons have c: "subject_consistent q" "resource_consistent q" "\<not> E q"
      by blast+
    from same_key_same_role [OF c(1,2) q(3), of "''editor''" r] c(3)
    show False by (simp add: G_def E_def)
  qed
  have av: "perm_deletedAt ?gv = None" and ae: "perm_deletedAt ?ge = None"
    by (simp_all add: G_def)
  from create_fresh [OF u2 av nv]
  have c1: "create ?gv ?rows2 = Inr (?rows2 @ [?gv])" and u3: "unique_active (?rows2 @ [?gv])"
    by blast+
  have "indexKey ?gv \<noteq> indexKey ?ge" by (simp add: G_def indexKey_def)
  with ne have ne': "\<forall>q \<in> set (?rows2 @ [?gv]). perm_deletedAt q = None \<longrightarrow> indexKey q \<noteq> indexKey ?ge"
    by auto
  from create_fresh [OF u3 ae ne']
  have c2: "create ?ge (?rows2 @ [?gv]) = Inr (?rows2 @ [?gv] @ [?ge])"
    and u4: "unique_active (?rows2 @ [?gv] @ [?ge])"
    by simp_all
  from c1 c2 u4 show ?thesis by simp
qed

lemma collections_update_permission_outcome:
  assumes inv: "unique_active (db_permissions db)"
    and cons: "\<forall>p \<in> set (db_permissions db). subject_consistent p \<and> resource_consistent p"
  shows "unique_active (snd (collections_update_permission pol req newId2 db i permission)) \<and>
    fst (collections_update_permission pol req newId2 db i permission) \<noteq> Inl UniqueConstraintError"
proof (cases "can_updateCollection pol (req_actor req) (db_collections db i)")
  case False
  with inv show ?thesis by (simp add: collections_update_permission_def Let_def)
next
  case True
  note can = this
  show ?thesis
  proof (cases "db_collections db i")
    case None
    with can inv show ?thesis by (simp add: collections_update_permission_def Let_def)
  next
    case (Some c)
    note g = update_grants_outcome [OF inv cons, where team = "user_teamId (req_actor req)"
        and r = "coll_id c" and ?n1.0 = "req_newId req" and granter = "user_id (req_actor req)"
        and now = "req_now req" and ?n2.0 = newId2]
    have d: "unique_active (destroy E (req_now req) (destroy V (req_now req) (db_permissions db)))"
      for E V using inv by (intro unique_active_destroy)
    consider (read) "permission = Some CollRead" | (edit) "permission = Some CollEdit"
      | (none) "permission \<noteq> Some CollRead" "permission \<noteq> Some CollEdit" by blast
    then show ?thesis
    proof cases
      case read
      from g [where ?l1.0 = LevelRead and ?l2.0 = LevelRead] can Some read show ?thesis
        by (auto simp: collections_update_permission_def Let_def)
    next
      case edit
      from g [where ?l1.0 = LevelRead and ?l2.0 = LevelEdit] can Some edit show ?thesis
        by (auto simp: collections_update_permission_def Let_def)
    next
      case none
      with can Some d show ?thesis
        by (simp add: collections_update_permission_def Let_def)
    qed
  qed
qed



lemma ex_permissions_subject_consistent: "\<forall>p \<in> set ex_permissions. subject_consistent p"
  by (simp add: ex_permissions_def mkPermission_def subject_consistent_def)

lemma ex_permissions_unique_active: "unique_active ex_permissions"
  by (simp add: unique_active_def ex_permissions_def mkPermission_def indexKey_def)

text \<open>
  Claim C9. On a table whose active rows have distinct index keys (and that satisfies its
  two consistency checks), each route that creates grants leaves a table whose active rows
  have distinct index keys, and none of them fails on the unique index:
  \<^verbatim>\<open>documents.add_user\<close>, \<^verbatim>\<open>documents.add_group\<close>, \<^verbatim>\<open>collections.add_user\<close> and
  \<^verbatim>\<open>collections.add_group\<close> either raise before any write or soft-delete every active
  grant with the key of the new one and then append it; \<^verbatim>\<open>collections.update\<close> replaces
  the role grants of the collection. Each route is one function of the table, as its
  writes are one transaction.
\<close>

theorem grant_creation_keeps_unique_active:
  assumes inv: "unique_active (db_permissions db)"
    and cons: "\<forall>p \<in> set (db_permissions db). subject_consistent p \<and> resource_consistent p"
  shows
    "(unique_active (snd (documents_add_user pol req db i userId dp)) \<and>
      spec_outcome (req_now req) (db_permissions db) (documents_add_user pol req db i userId dp)) \<and>
     (unique_active (snd (documents_add_group pol req db i groupId dp)) \<and>
      spec_outcome (req_now req) (db_permissions db) (documents_add_group pol req db i groupId dp)) \<and>
     (unique_active (snd (collections_add_user pol req db i userId cp)) \<and>
      spec_outcome (req_now req) (db_permissions db) (collections_add_user pol req db i userId cp)) \<and>
     (unique_active (snd (collections_add_group pol req db i groupId cp')) \<and>
      spec_outcome (req_now req) (db_permissions db) (collections_add_group pol req db i groupId cp')) \<and>
     (unique_active (snd (collections_update_permission pol req newId2 db i cp)) \<and>
      fst (collections_update_permission pol req newId2 db i cp) \<noteq> Inl UniqueConstraintError)"
proof -
  note outcomes = documents_add_user_outcome [OF inv cons] documents_add_group_outcome [OF inv cons]
    collections_add_user_outcome [OF inv cons] collections_add_group_outcome [OF inv cons]
    collections_update_permission_outcome [OF inv cons]
  show ?thesis
    by (intro conjI outcomes [THEN conjunct1] outcomes [THEN conjunct2])
qed

theorem grant_creation_keeps_unique_active_witness:
  "unique_active (db_permissions ex_db) \<and>
   unique_active (snd (documents_add_user allow_all ex_request ex_db ''d3'' ''u1'' (Some DocEdit))) \<and>
   map (\<lambda>p. (perm_id p, perm_deletedAt p))
     (snd (documents_add_user allow_all ex_request ex_db ''d3'' ''u1'' (Some DocEdit))) =
     [(''g1'', None), (''g2'', None), (''g3'', Some 20), (''g4'', None), (''g5'', None),
      (''g6'', Some 7), (''g7'', None), (''g8'', None), (''g9'', None), (''g10'', None)]"
proof -
  have u: "unique_active (db_permissions ex_db)"
    using ex_permissions_unique_active by (simp add: ex_db_def)
  have c: "\<forall>p \<in> set (db_permissions ex_db). subject_consistent p \<and> resource_consistent p"
    using ex_permissions_subject_consistent ex_permissions_consistent by (simp add: ex_db_def)
  have v: "map (\<lambda>p. (perm_id p, perm_deletedAt p))
     (snd (documents_add_user allow_all ex_request ex_db ''d3'' ''u1'' (Some DocEdit))) =
     [(''g1'', None), (''g2'', None), (''g3'', Some 20), (''g4'', None), (''g5'', None),
      (''g6'', Some 7), (''g7'', None), (''g8'', None), (''g9'', None), (''g10'', None)]"
    by (simp add: documents_add_user_def destroyThenCreate_def destroy_def create_def
        indexKey_def allow_all_def ex_request_def mkUser_def ex_db_def ex_documents_def
        ex_permissions_def mkPermission_def Let_def)
  from grant_creation_keeps_unique_active [OF u c, of allow_all ex_request "''d3''" "''u1''" "Some DocEdit"]
    u v show ?thesis by blast
qed

end
